theory Spec2Isabelle
  imports Main "HOL-Library.Word"
begin

unbundle bit_operations_syntax

section \<open>The fastboot front end (\<^verbatim>\<open>src/fastboot.c\<close>)\<close>

text \<open>
  A shallow embedding of \<^verbatim>\<open>fastboot.c\<close>: the device matcher, the loaders, the package
  planner \<^verbatim>\<open>do_flashall\<close>, the vendor command builder \<^verbatim>\<open>do_oem_command\<close> and the
  command loop of \<^verbatim>\<open>main\<close>. C strings are \<open>string\<close>s without a NUL byte, so
  \<^verbatim>\<open>strcmp(a, b) == 0\<close> is \<open>a = b\<close>. A pointer that may be null is an \<open>option\<close>.
\<close>

subsection \<open>Data\<close>

type_synonym bytes = "8 word list"

text \<open>
  Modelled from the spec: the queue and its append calls \<^verbatim>\<open>fb_queue_flash\<close>,
  \<^verbatim>\<open>fb_queue_erase\<close>, \<^verbatim>\<open>fb_queue_display\<close>, \<^verbatim>\<open>fb_queue_notice\<close>,
  \<^verbatim>\<open>fb_queue_command\<close>, \<^verbatim>\<open>fb_queue_reboot\<close> and \<^verbatim>\<open>fb_queue_download\<close> are declared in
  \<^verbatim>\<open>fastboot.h\<close> and implemented by the engine, neither of which is under \<^verbatim>\<open>src/\<close>.
  Following section 3 of the spec, a queued operation is a tagged variant and each call
  appends exactly one operation of the like-named tag, carrying the call's arguments.
\<close>

datatype action =
    Flash string bytes nat
  | Erase string
  | Display string string
  | Notice string
  | Command string string
  | Reboot
  | Download string bytes nat

text \<open>
  The fields of \<^verbatim>\<open>usb_ifc_info\<close> that \<^verbatim>\<open>fastboot.c\<close> reads: an unsigned short vendor
  id, three unsigned char interface codes, the writable flag and the serial number.
\<close>

record usb_ifc_info =
  dev_vendor :: "16 word"
  ifc_class :: "8 word"
  ifc_subclass :: "8 word"
  ifc_protocol :: "8 word"
  writable :: bool
  serial_number :: string

text \<open>
  The mutable state of a run: the file-scope variables \<^verbatim>\<open>serial\<close> (a null pointer is
  \<open>None\<close>) and \<^verbatim>\<open>vendor_id\<close> (0 until \<^verbatim>\<open>-i\<close> sets it), the two reboot flags local to
  \<^verbatim>\<open>main\<close>, and the engine's queue in append order.
\<close>

record state =
  serial :: "string option"
  vendor_id :: "16 word"
  wants_reboot :: bool
  wants_reboot_bootloader :: bool
  queue :: "action list"

definition initial :: state where
  "initial = \<lparr>serial = None, vendor_id = 0, wants_reboot = False,
     wants_reboot_bootloader = False, queue = []\<rparr>"

definition enqueue :: "action \<Rightarrow> state \<Rightarrow> state" where
  "enqueue a s = s\<lparr>queue := queue s @ [a]\<rparr>"

definition fb_queue_flash :: "string \<Rightarrow> bytes \<Rightarrow> nat \<Rightarrow> state \<Rightarrow> state" where
  "fb_queue_flash ptn data sz = enqueue (Flash ptn data sz)"

definition fb_queue_erase :: "string \<Rightarrow> state \<Rightarrow> state" where
  "fb_queue_erase ptn = enqueue (Erase ptn)"

definition fb_queue_display :: "string \<Rightarrow> string \<Rightarrow> state \<Rightarrow> state" where
  "fb_queue_display var prettyname = enqueue (Display var prettyname)"

definition fb_queue_notice :: "string \<Rightarrow> state \<Rightarrow> state" where
  "fb_queue_notice notice = enqueue (Notice notice)"

definition fb_queue_command :: "string \<Rightarrow> string \<Rightarrow> state \<Rightarrow> state" where
  "fb_queue_command cmd msg = enqueue (Command cmd msg)"

definition fb_queue_reboot :: "state \<Rightarrow> state" where
  "fb_queue_reboot = enqueue Reboot"

definition fb_queue_download :: "string \<Rightarrow> bytes \<Rightarrow> nat \<Rightarrow> state \<Rightarrow> state" where
  "fb_queue_download name data sz = enqueue (Download name data sz)"

subsection \<open>The device matcher\<close>

text \<open>
  \<^verbatim>\<open>match_fastboot\<close> returns 0 for an eligible interface and -1 otherwise. The checks
  stand in the source's order. \<^verbatim>\<open>vendor_id\<close> is tested for being nonzero before it is
  compared: 0 means that no override is set.
\<close>

definition match_fastboot :: "state \<Rightarrow> usb_ifc_info \<Rightarrow> int" where
  "match_fastboot g info =
     (if \<not> (vendor_id g \<noteq> 0 \<and> dev_vendor info = vendor_id g) \<and>
         dev_vendor info \<noteq> 0x18d1 \<and>
         dev_vendor info \<noteq> 0x0451 \<and>
         dev_vendor info \<noteq> 0x0502 \<and>
         dev_vendor info \<noteq> 0x0fce \<and>
         dev_vendor info \<noteq> 0x05c6 \<and>
         dev_vendor info \<noteq> 0x22b8 \<and>
         dev_vendor info \<noteq> 0x0955 \<and>
         dev_vendor info \<noteq> 0x413c \<and>
         dev_vendor info \<noteq> 0x8087 \<and>
         dev_vendor info \<noteq> 0x0bb4 then - 1
      else if ifc_class info \<noteq> 0xff then - 1
      else if ifc_subclass info \<noteq> 0x42 then - 1
      else if ifc_protocol info \<noteq> 0x03 then - 1
      else if (case serial g of None \<Rightarrow> False | Some s \<Rightarrow> s \<noteq> serial_number info) then - 1
      else 0)"

text \<open>The whitelist: the ten vendor ids that the matcher names.\<close>

definition known_vendors :: "16 word set" where
  "known_vendors =
     {0x18d1, 0x0451, 0x0502, 0x0fce, 0x05c6, 0x22b8, 0x0955, 0x413c, 0x8087, 0x0bb4}"

definition override_set :: "state \<Rightarrow> bool" where
  "override_set g \<longleftrightarrow> vendor_id g \<noteq> 0"

definition serial_unset :: "state \<Rightarrow> bool" where
  "serial_unset g \<longleftrightarrow> serial g = None"

subsection \<open>The environment: files, allocation, the archive library\<close>

text \<open>
  Modelled from the spec: the archive library (\<^verbatim>\<open>libzipfile/zipfile.h\<close>, not under
  \<^verbatim>\<open>src/\<close>). Following section 6 of the spec it opens a byte blob as an archive or fails
  (\<^verbatim>\<open>init_zipfile\<close>), looks a name up to an entry or none (\<^verbatim>\<open>lookup_zipentry\<close>), gives
  an entry's nominal uncompressed size (\<^verbatim>\<open>get_zipentry_size\<close>) and decompresses an entry
  into a buffer of a given capacity, reporting success or failure
  (\<^verbatim>\<open>decompress_zipentry\<close>; \<open>None\<close> is the nonzero return).
\<close>

record zipentry =
  get_zipentry_size :: nat
  decompress_zipentry :: "nat \<Rightarrow> bytes option"

type_synonym zipfile = "string \<Rightarrow> zipentry option"

text \<open>
  What a run reads from outside the program: the contents of the files that \<^verbatim>\<open>open\<close> can
  open, whether \<^verbatim>\<open>malloc\<close> of a given size returns a non-null pointer, the text
  \<^verbatim>\<open>strerror(errno)\<close> after a failed load of a path, the archive library's
  \<^verbatim>\<open>init_zipfile\<close>, and \<^verbatim>\<open>getenv("ANDROID_SERIAL")\<close>.
\<close>

record env =
  files :: "string \<Rightarrow> bytes option"
  malloc_ok :: "nat \<Rightarrow> bool"
  strerror_errno :: "string \<Rightarrow> string"
  init_zipfile :: "bytes \<Rightarrow> zipfile option"
  android_serial :: "string option"

text \<open>
  \<^verbatim>\<open>int sz = lseek(fd, 0, SEEK_END)\<close>: the file's size, a 64-bit \<^verbatim>\<open>off_t\<close>, is stored in a
  32-bit \<^verbatim>\<open>int\<close>, which keeps its low 32 bits as a two's complement value.
\<close>

definition size_as_int :: "nat \<Rightarrow> int" where
  "size_as_int n = (let m = n mod 2 ^ 32 in if m < 2 ^ 31 then int m else int m - 2 ^ 32)"

text \<open>
  \<^verbatim>\<open>load_file\<close>: null when the file cannot be opened, when \<^verbatim>\<open>sz\<close> is negative or when the
  buffer of \<^verbatim>\<open>sz\<close> bytes cannot be allocated; else \<^verbatim>\<open>read\<close> fills the buffer with the first
  \<^verbatim>\<open>sz\<close> bytes of the file and the result is the buffer with \<^verbatim>\<open>sz\<close> as its size.
\<close>

definition load_file :: "env \<Rightarrow> string \<Rightarrow> (bytes \<times> nat) option" where
  "load_file env fn =
     (case files env fn of
        None \<Rightarrow> None
      | Some content \<Rightarrow>
          (let sz = size_as_int (length content)
           in if sz < 0 then None
              else if \<not> malloc_ok env (nat sz) then None
              else Some (take (nat sz) content, nat sz)))"

subsection \<open>The buffer size \<^verbatim>\<open>datasz = *sz * 1.001\<close>\<close>

text \<open>
  The unsigned 32-bit \<^verbatim>\<open>*sz\<close> is converted to double (exactly), multiplied by the double
  nearest to 1.001, which is \<open>4508103226997866 / 2 ^ 52\<close>, the product is rounded to 53
  significant bits (to nearest, ties to even), and the conversion to \<^verbatim>\<open>unsigned\<close> drops
  the fraction. A product of \<open>2 ^ 32\<close> or more has no \<^verbatim>\<open>unsigned\<close> value: C leaves the
  conversion undefined, here \<open>None\<close>. Numbers are kept as numerators over \<open>2 ^ 52\<close>.
\<close>

definition double_1_001 :: nat where
  "double_1_001 = 4508103226997866"

fun bit_length :: "nat \<Rightarrow> nat" where
  "bit_length n = (if n = 0 then 0 else Suc (bit_length (n div 2)))"

declare bit_length.simps [simp del]

definition round_double :: "nat \<Rightarrow> nat" where
  "round_double num =
     (let b = bit_length num in
      if b \<le> 53 then num
      else
        let sh = b - 53; q = num div 2 ^ sh; r = num mod 2 ^ sh; half = 2 ^ (sh - 1)
        in (if half < r \<or> (r = half \<and> odd q) then q + 1 else q) * 2 ^ sh)"

definition times_1_001 :: "nat \<Rightarrow> nat option" where
  "times_1_001 sz =
     (let v = round_double (sz * double_1_001) div 2 ^ 52
      in if v < 2 ^ 32 then Some v else None)"

subsection \<open>\<^verbatim>\<open>unzip_file\<close>\<close>

datatype unzipped = Conversion_undefined | Null | Unzipped bytes nat

definition unzip_file :: "env \<Rightarrow> zipfile \<Rightarrow> string \<Rightarrow> unzipped" where
  "unzip_file env zp name =
     (case zp name of
        None \<Rightarrow> Null
      | Some entry \<Rightarrow>
          (let sz = get_zipentry_size entry mod 2 ^ 32
           in case times_1_001 sz of
                None \<Rightarrow> Conversion_undefined
              | Some datasz \<Rightarrow>
                  if \<not> malloc_ok env datasz then Null
                  else (case decompress_zipentry entry datasz of
                          None \<Rightarrow> Null
                        | Some data \<Rightarrow> Unzipped data sz)))"

subsection \<open>How a run stops\<close>

text \<open>
  \<^verbatim>\<open>usage(); exit(1)\<close> (or \<^verbatim>\<open>return 1\<close>), \<^verbatim>\<open>die(fmt, ...)\<close> with its format and string
  arguments (it prints \<^verbatim>\<open>error: \<close>, the formatted message and a newline, and exits
  with 1), or undefined behaviour of the C program.
\<close>

datatype stop = Usage | Die string "string list" | Undefined_behaviour

type_synonym 'a result = "(stop \<times> state) + 'a"

subsection \<open>\<^verbatim>\<open>queue_info_dump\<close> and \<^verbatim>\<open>do_flashall\<close>\<close>

definition FW_DNX_BIN :: string where "FW_DNX_BIN = ''dnx.bin''"
definition IFWI_BIN :: string where "IFWI_BIN = ''ifwi.bin''"
definition NORMALOS_BIN :: string where "NORMALOS_BIN = ''stitch.normalos.bin''"
definition PREOS_BIN :: string where "PREOS_BIN = ''stitch.preos.bin''"
definition PLATFORM_IMG :: string where "PLATFORM_IMG = ''platform.img.gz''"

definition separator :: string where
  "separator = ''--------------------------------------------''"

definition queue_info_dump :: "state \<Rightarrow> state" where
  "queue_info_dump s =
     fb_queue_notice separator
       (fb_queue_display ''ifwi'' ''Current IFWI Version   ''
         (fb_queue_display ''preos'' ''Current Pre-OS Version ''
           (fb_queue_notice separator s)))"

text \<open>
  One block of \<^verbatim>\<open>do_flashall\<close>: \<^verbatim>\<open>data = unzip_file(zip, name, &sz); if (data == 0)
  die(fmt, name); fb_queue_flash(ptn, data, sz);\<close>
\<close>

definition flash_entry ::
  "env \<Rightarrow> zipfile \<Rightarrow> string \<Rightarrow> string \<Rightarrow> string \<Rightarrow> state \<Rightarrow> state result" where
  "flash_entry env zp name fmt ptn s =
     (case unzip_file env zp name of
        Conversion_undefined \<Rightarrow> Inl (Undefined_behaviour, s)
      | Null \<Rightarrow> Inl (Die fmt [name], s)
      | Unzipped data sz \<Rightarrow> Inr (fb_queue_flash ptn data sz s))"

definition newline :: string where
  "newline = [CHR 0x0A]"

definition do_flashall :: "env \<Rightarrow> string \<Rightarrow> state \<Rightarrow> state result" where
  "do_flashall env fn s0 =
     (let s = queue_info_dump s0 in
      case load_file env fn of
        None \<Rightarrow> Inl (Die ''failed to load '%s': %s'' [fn, strerror_errno env fn], s)
      | Some (zdata, zsize) \<Rightarrow>
      (case init_zipfile env zdata of
        None \<Rightarrow> Inl (Die (''failed to access zipdata in '%s'' @ [CHR 0x27]) [], s)
      | Some zp \<Rightarrow>
      (case flash_entry env zp FW_DNX_BIN ''package missing %s'' ''dnx'' s of
        Inl e \<Rightarrow> Inl e
      | Inr s1 \<Rightarrow>
      (case flash_entry env zp IFWI_BIN ''package missing %s'' ''ifwi'' s1 of
        Inl e \<Rightarrow> Inl e
      | Inr s2 \<Rightarrow>
      (case flash_entry env zp NORMALOS_BIN ''package missing %s'' ''boot'' s2 of
        Inl e \<Rightarrow> Inl e
      | Inr s3 \<Rightarrow>
      (case flash_entry env zp PREOS_BIN (''package missing %s'' @ newline) ''preos'' s3 of
        Inl e \<Rightarrow> Inl e
      | Inr s4 \<Rightarrow>
        flash_entry env zp PLATFORM_IMG (''package missing %s'' @ newline) ''platform''
          s4))))))"

text \<open>
  The five blocks of \<^verbatim>\<open>do_flashall\<close> as a list of entry name, \<^verbatim>\<open>die\<close> format and
  partition, run in order up to the first that stops.
\<close>

definition blocks :: "(string \<times> string \<times> string) list" where
  "blocks =
     [(FW_DNX_BIN, ''package missing %s'', ''dnx''),
      (IFWI_BIN, ''package missing %s'', ''ifwi''),
      (NORMALOS_BIN, ''package missing %s'', ''boot''),
      (PREOS_BIN, ''package missing %s'' @ newline, ''preos''),
      (PLATFORM_IMG, ''package missing %s'' @ newline, ''platform'')]"

fun flash_entries ::
  "env \<Rightarrow> zipfile \<Rightarrow> (string \<times> string \<times> string) list \<Rightarrow> state \<Rightarrow> state result" where
  "flash_entries env zp [] s = Inr s"
| "flash_entries env zp ((name, fmt, ptn) # es) s =
     (case flash_entry env zp name fmt ptn s of
        Inl e \<Rightarrow> Inl e
      | Inr s' \<Rightarrow> flash_entries env zp es s')"

subsection \<open>\<^verbatim>\<open>do_oem_command\<close>\<close>

text \<open>
  \<^verbatim>\<open>strcat\<close> into \<^verbatim>\<open>char command[256]\<close>: the result and its NUL must fit, else the
  write runs past the array (\<open>None\<close>).
\<close>

definition strcat_256 :: "string \<Rightarrow> string \<Rightarrow> string option" where
  "strcat_256 dst src = (if length dst + length src < 256 then Some (dst @ src) else None)"

text \<open>
  The \<^verbatim>\<open>while(1)\<close> loop, entered with at least one token left (\<open>a\<close> is \<^verbatim>\<open>*argv\<close>):
  append the token, skip it, stop when none is left, else append a space.
\<close>

fun oem_loop :: "string \<Rightarrow> string \<Rightarrow> string list \<Rightarrow> string option" where
  "oem_loop command a rest =
     (case strcat_256 command a of
        None \<Rightarrow> None
      | Some c \<Rightarrow>
          (case rest of
             [] \<Rightarrow> Some c
           | b # rest' \<Rightarrow>
               (case strcat_256 c '' '' of
                  None \<Rightarrow> None
                | Some c' \<Rightarrow> oem_loop c' b rest')))"

declare oem_loop.simps [simp del]

text \<open>
  \<^verbatim>\<open>do_oem_command(argc, argv)\<close> is called with \<^verbatim>\<open>argv\<close> at the \<^verbatim>\<open>oem\<close> token itself. It
  always returns 0, which the caller stores into \<^verbatim>\<open>argc\<close>.
\<close>

definition do_oem_command :: "string list \<Rightarrow> state \<Rightarrow> state result" where
  "do_oem_command argv s =
     (if length argv \<le> 1 then Inr s
      else (case oem_loop [] (hd argv) (tl argv) of
              None \<Rightarrow> Inl (Undefined_behaviour, s)
            | Some command \<Rightarrow> Inr (fb_queue_command command [] s)))"

subsection \<open>\<^verbatim>\<open>strtoul(argv[1], &endptr, 0)\<close> and the vendor id check\<close>

text \<open>
  The C library's \<^verbatim>\<open>strtoul\<close> with base 0 and a 64-bit \<^verbatim>\<open>unsigned long\<close>: white space
  is skipped, then an optional sign, then \<^verbatim>\<open>0x\<close> or \<^verbatim>\<open>0X\<close> before a hexadecimal digit
  selects base 16, a leading \<^verbatim>\<open>0\<close> base 8, anything else base 10; the longest run of
  digits of the base is converted. With no digit there is no conversion: the value is 0
  and \<^verbatim>\<open>endptr\<close> is the start of the string. A value out of range gives
  \<^verbatim>\<open>ULONG_MAX\<close>; a minus sign negates in the unsigned type. The second component is the
  offset of \<^verbatim>\<open>endptr\<close> in the string.
\<close>

definition isspace :: "char \<Rightarrow> bool" where
  "isspace c \<longleftrightarrow> c \<in> set [CHR '' '', CHR 0x09, CHR 0x0A, CHR 0x0B, CHR 0x0C, CHR 0x0D]"

definition digit_value :: "char \<Rightarrow> nat" where
  "digit_value c =
     (let n = (of_char c :: nat)
      in if 48 \<le> n \<and> n \<le> 57 then n - 48
         else if 97 \<le> n \<and> n \<le> 122 then n - 87
         else if 65 \<le> n \<and> n \<le> 90 then n - 55
         else 36)"

text \<open>
  The start of the subject sequence: whether a minus sign was read, the base, and the
  rest of the string from the first digit position on.
\<close>

definition hex_prefix :: "string \<Rightarrow> bool" where
  "hex_prefix s2 =
     (case s2 of
        z # x # h # _ \<Rightarrow> z = CHR ''0'' \<and> (x = CHR ''x'' \<or> x = CHR ''X'') \<and> digit_value h < 16
      | _ \<Rightarrow> False)"

definition subject :: "string \<Rightarrow> bool \<times> nat \<times> string" where
  "subject nptr =
     (let s1 = dropWhile isspace nptr;
          neg = (s1 \<noteq> [] \<and> hd s1 = CHR ''-'');
          s2 = (if s1 \<noteq> [] \<and> (hd s1 = CHR ''-'' \<or> hd s1 = CHR ''+'') then tl s1 else s1);
          hex = hex_prefix s2;
          base = (if hex then 16 else if s2 \<noteq> [] \<and> hd s2 = CHR ''0'' then 8 else 10);
          s3 = (if hex then drop 2 s2 else s2)
      in (neg, base, s3))"

definition strtoul :: "string \<Rightarrow> 64 word \<times> nat" where
  "strtoul nptr =
     (case subject nptr of
        (neg, base, s3) \<Rightarrow>
          (let ds = takeWhile (\<lambda>c. digit_value c < base) s3;
               n = foldl (\<lambda>a c. a * base + digit_value c) 0 ds
           in if ds = [] then (0, 0)
              else (if 2 ^ 64 \<le> n then - 1 else if neg then - of_nat n else of_nat n,
                    length nptr - length s3 + length ds)))"

text \<open>
  Lines 354 to 357: \<^verbatim>\<open>if (!endptr || *endptr != '\0' || (val & ~0xffff)) die(...);
  vendor_id = (unsigned short)val;\<close>. \<open>None\<close> is the \<^verbatim>\<open>die\<close>. \<^verbatim>\<open>endptr\<close> is never null
  after \<^verbatim>\<open>strtoul\<close>, and \<^verbatim>\<open>*endptr\<close> is the NUL exactly at the end of the string.
\<close>

definition vendor_id_arg :: "string \<Rightarrow> 16 word option" where
  "vendor_id_arg a =
     (case strtoul a of
        (val, endptr) \<Rightarrow>
          if endptr < length a \<or> val AND NOT 0xffff \<noteq> 0 then None else Some (ucast val))"

subsection \<open>The command loop of \<^verbatim>\<open>main\<close>\<close>

text \<open>
  One pass through the body of \<^verbatim>\<open>while (argc > 0)\<close>, \<open>a\<close> being \<^verbatim>\<open>*argv\<close> and \<open>argv\<close>
  the tokens after it. \<^verbatim>\<open>require(n)\<close> stops with the usage text when fewer than \<open>n\<close>
  tokens are left, \<^verbatim>\<open>skip(n)\<close> drops \<open>n\<close> tokens. The branches stand in the source's
  order. The result is the new state with the tokens still to read; after
  \<^verbatim>\<open>argc = do_oem_command(argc, argv)\<close> none are left.
\<close>

definition loop_body ::
  "env \<Rightarrow> state \<Rightarrow> string \<Rightarrow> string list \<Rightarrow> (state \<times> string list) result" where
  "loop_body env s a argv =
     (if a = ''-s'' then
        (case argv of
           [] \<Rightarrow> Inl (Usage, s)
         | a1 # rest \<Rightarrow> Inr (s\<lparr>serial := Some a1\<rparr>, rest))
      else if a = ''-i'' then
        (case argv of
           [] \<Rightarrow> Inl (Usage, s)
         | a1 # rest \<Rightarrow>
             (case vendor_id_arg a1 of
                None \<Rightarrow> Inl (Die (''invalid vendor id '%s'' @ [CHR 0x27]) [a1], s)
              | Some v \<Rightarrow> Inr (s\<lparr>vendor_id := v\<rparr>, rest)))
      else if a = ''getvar'' then
        (case argv of
           [] \<Rightarrow> Inl (Usage, s)
         | a1 # rest \<Rightarrow> Inr (fb_queue_display a1 a1 s, rest))
      else if a = ''erase'' then
        (case argv of
           [] \<Rightarrow> Inl (Usage, s)
         | a1 # rest \<Rightarrow> Inr (fb_queue_erase a1 s, rest))
      else if a = ''signature'' then
        (case argv of
           [] \<Rightarrow> Inl (Usage, s)
         | a1 # rest \<Rightarrow>
             (case load_file env a1 of
                None \<Rightarrow> Inl (Die ''could not load '%s': %s'' [a1, strerror_errno env a1], s)
              | Some (data, sz) \<Rightarrow>
                  if sz \<noteq> 256 then Inl (Die ''signature must be 256 bytes'' [], s)
                  else Inr (fb_queue_command ''signature'' ''installing signature''
                              (fb_queue_download ''signature'' data sz s),
                            rest)))
      else if a = ''reboot'' then Inr (s\<lparr>wants_reboot := True\<rparr>, argv)
      else if a = ''reboot-bootloader'' then Inr (s\<lparr>wants_reboot_bootloader := True\<rparr>, argv)
      else if a = ''continue'' then
        Inr (fb_queue_command ''continue'' ''resuming boot'' s, argv)
      else if a = ''flash'' then
        (case argv of
           pname # fname # rest \<Rightarrow>
             (case load_file env fname of
                None \<Rightarrow>
                  Inl (Die (''cannot load '%s': %s'' @ newline) [fname, strerror_errno env fname],
                       s)
              | Some (data, sz) \<Rightarrow> Inr (fb_queue_flash pname data sz s, rest))
         | _ \<Rightarrow> Inl (Usage, s))
      else if a = ''flashall'' then
        (case argv of
           [] \<Rightarrow> Inl (Usage, s)
         | a1 # rest \<Rightarrow>
             (case do_flashall env a1 s of
                Inl e \<Rightarrow> Inl e
              | Inr s' \<Rightarrow> Inr (s'\<lparr>wants_reboot := True\<rparr>, rest)))
      else if a = ''oem'' then
        (case do_oem_command (a # argv) s of
           Inl e \<Rightarrow> Inl e
         | Inr s' \<Rightarrow> Inr (s', []))
      else Inl (Usage, s))"

lemma loop_body_skips:
  "loop_body env s a argv = Inr (s', argv') \<Longrightarrow> length argv' \<le> length argv"
  by (auto simp add: loop_body_def split: if_splits list.splits option.splits sum.splits)

text \<open>The loop: it ends when no token is left, or at the first stop.\<close>

function command_loop :: "env \<Rightarrow> state \<Rightarrow> string list \<Rightarrow> state result" where
  "command_loop env s [] = Inr s"
| "command_loop env s (a # argv) =
     (case loop_body env s a argv of
        Inl e \<Rightarrow> Inl e
      | Inr (s', argv') \<Rightarrow> command_loop env s' argv')"
  by pat_completeness auto

termination
  by (relation "measure (\<lambda>(env, s, argv). length argv)")
     (auto dest: loop_body_skips)

subsection \<open>\<^verbatim>\<open>main\<close>\<close>

text \<open>Lines 406 to 410: the deferred reboot, resolved after the loop.\<close>

definition resolve_reboot :: "state \<Rightarrow> state" where
  "resolve_reboot s =
     (if wants_reboot s then fb_queue_reboot s
      else if wants_reboot_bootloader s then
        fb_queue_command ''reboot-bootloader'' ''rebooting into bootloader'' s
      else s)"

text \<open>
  The ways \<^verbatim>\<open>main\<close> ends: the device listing (\<^verbatim>\<open>return 0\<close>), the help text
  (\<^verbatim>\<open>return 0\<close>), a stop with the state reached, or the hand-over of the queue to
  \<^verbatim>\<open>open_device\<close> and \<^verbatim>\<open>fb_execute_queue\<close>, whose status decides the exit status.
\<close>

datatype outcome = Devices_listed | Help_shown | Stopped stop state | Executed state

text \<open>
  \<open>argv\<close> is the whole argument vector; \<^verbatim>\<open>skip(1)\<close> drops the program name, which a
  hosted C program always gets.
\<close>

definition main :: "env \<Rightarrow> string list \<Rightarrow> outcome" where
  "main env argv0 =
     (let argv = drop 1 argv0 in
      if argv = [] then Stopped Usage initial
      else if hd argv = ''devices'' then Devices_listed
      else if hd argv = ''help'' then Help_shown
      else (case command_loop env (initial\<lparr>serial := android_serial env\<rparr>) argv of
              Inl (e, s) \<Rightarrow> Stopped e s
            | Inr s \<Rightarrow> Executed (resolve_reboot s)))"

text \<open>The exit status where the source fixes it.\<close>

fun exit_status :: "outcome \<Rightarrow> int option" where
  "exit_status Devices_listed = Some 0"
| "exit_status Help_shown = Some 0"
| "exit_status (Stopped Usage s) = Some 1"
| "exit_status (Stopped (Die fmt args) s) = Some 1"
| "exit_status (Stopped Undefined_behaviour s) = None"
| "exit_status (Executed s) = None"

subsection \<open>The command table and the package manifest of the spec\<close>

text \<open>
  The definitions of this subsection follow the words of the spec (sections 4.4 and 4.5),
  to be compared with the functions translated from the source above.
\<close>

definition recognized :: "string list" where
  "recognized = [''-s'', ''-i'', ''getvar'', ''erase'', ''signature'', ''reboot'',
     ''reboot-bootloader'', ''continue'', ''flash'', ''flashall'', ''oem'']"

text \<open>The arity column of the table; \<^verbatim>\<open>oem\<close> takes all the tokens left.\<close>

definition arity :: "string \<Rightarrow> nat" where
  "arity a =
     (if a \<in> set [''-s'', ''-i'', ''getvar'', ''erase'', ''signature'', ''flashall''] then 2
      else if a = ''flash'' then 3
      else 1)"

text \<open>The leading tokens of a token stream: the tokens that stand where a command starts.\<close>

fun command_tokens :: "string list \<Rightarrow> string list" where
  "command_tokens [] = []"
| "command_tokens (a # rest) =
     (if a = ''oem'' then [a] else a # command_tokens (drop (arity a - 1) rest))"

text \<open>
  A stream of recognized commands other than \<^verbatim>\<open>oem\<close>, each with all the tokens of its
  arity.
\<close>

fun complete :: "string list \<Rightarrow> bool" where
  "complete [] = True"
| "complete (a # rest) =
     (a \<in> set recognized \<and> a \<noteq> ''oem'' \<and> arity a - 1 \<le> length rest \<and>
      complete (drop (arity a - 1) rest))"

text \<open>The two operations that resolve a deferred reboot intent, and the tie-break.\<close>

definition trailer_op :: "action \<Rightarrow> bool" where
  "trailer_op a \<longleftrightarrow>
     a = Reboot \<or> a = Command ''reboot-bootloader'' ''rebooting into bootloader''"

definition trailing_reboot :: "string list \<Rightarrow> action list" where
  "trailing_reboot ts =
     (if ''reboot'' \<in> set (command_tokens ts) \<or> ''flashall'' \<in> set (command_tokens ts)
      then [Reboot]
      else if ''reboot-bootloader'' \<in> set (command_tokens ts)
      then [Command ''reboot-bootloader'' ''rebooting into bootloader'']
      else [])"

text \<open>Tokens joined with single spaces.\<close>

fun join_spaces :: "string list \<Rightarrow> string" where
  "join_spaces [] = []"
| "join_spaces [a] = a"
| "join_spaces (a # b # rest) = a @ '' '' @ join_spaces (b # rest)"


text \<open>
  The package plan of section 4.4: the two status queries between their separators, then
  one Flash per manifest entry, in manifest order.
\<close>

definition info_dump :: "action list" where
  "info_dump =
     [Notice separator, Display ''preos'' ''Current Pre-OS Version '',
      Display ''ifwi'' ''Current IFWI Version   '', Notice separator]"

definition manifest :: "(string \<times> string) list" where
  "manifest =
     [(''dnx.bin'', ''dnx''), (''ifwi.bin'', ''ifwi''), (''stitch.normalos.bin'', ''boot''),
      (''stitch.preos.bin'', ''preos''), (''platform.img.gz'', ''platform'')]"

definition contains :: "zipfile \<Rightarrow> string \<Rightarrow> bool" where
  "contains zp name \<longleftrightarrow> zp name \<noteq> None"

definition extracts :: "env \<Rightarrow> zipfile \<Rightarrow> string \<Rightarrow> bool" where
  "extracts env zp name =
     (case unzip_file env zp name of Unzipped data sz \<Rightarrow> True | _ \<Rightarrow> False)"

definition flash_of :: "env \<Rightarrow> zipfile \<Rightarrow> string \<times> string \<Rightarrow> action list" where
  "flash_of env zp e =
     (case unzip_file env zp (fst e) of Unzipped data sz \<Rightarrow> [Flash (snd e) data sz] | _ \<Rightarrow> [])"

definition flashes :: "env \<Rightarrow> zipfile \<Rightarrow> (string \<times> string) list \<Rightarrow> action list" where
  "flashes env zp es = concat (map (flash_of env zp) es)"




text \<open>
  A string is parseable as an unsigned 16-bit value when it is a number in C's notation
  below \<open>2 ^ 16\<close>: after \<^verbatim>\<open>0x\<close> or \<^verbatim>\<open>0X\<close> one or more hexadecimal digits, after a leading
  \<^verbatim>\<open>0\<close> octal digits only, else one or more decimal digits. The value of a row of digits is
  positional, the most significant digit first.
\<close>

fun positional :: "nat \<Rightarrow> nat list \<Rightarrow> nat" where
  "positional b [] = 0"
| "positional b (d # ds) = d * b ^ length ds + positional b ds"

definition number_in_base :: "nat \<Rightarrow> string \<Rightarrow> nat option" where
  "number_in_base b ds =
     (if ds \<noteq> [] \<and> list_all (\<lambda>c. digit_value c < b) ds
      then Some (positional b (map digit_value ds))
      else None)"

definition c_number :: "string \<Rightarrow> nat option" where
  "c_number a =
     (if take 2 a = ''0x'' \<or> take 2 a = ''0X'' then number_in_base 16 (drop 2 a)
      else if take 1 a = ''0'' then number_in_base 8 a
      else number_in_base 10 a)"

definition parseable_u16 :: "string \<Rightarrow> bool" where
  "parseable_u16 a \<longleftrightarrow> (case c_number a of None \<Rightarrow> False | Some n \<Rightarrow> n < 2 ^ 16)"

text \<open>The queue that a run hands to the execution engine, if it gets there.\<close>

fun final_queue :: "outcome \<Rightarrow> action list option" where
  "final_queue (Executed s) = Some (queue s)"
| "final_queue _ = None"

subsection \<open>Sample inputs\<close>

text \<open>
  Inputs at which the theorems below are evaluated: an archive entry that holds \<open>data\<close>
  and decompresses into any buffer that has room for it, and an environment given by its
  files and its archives in which every allocation succeeds.
\<close>

definition stored :: "bytes \<Rightarrow> zipentry" where
  "stored data =
     \<lparr>get_zipentry_size = length data,
      decompress_zipentry = (\<lambda>cap. if length data \<le> cap then Some data else None)\<rparr>"

definition sample_env :: "(string \<times> bytes) list \<Rightarrow> (bytes \<times> (string \<times> zipentry) list) list \<Rightarrow> env" where
  "sample_env fs zs =
     \<lparr>files = map_of fs,
      malloc_ok = (\<lambda>n. True),
      strerror_errno = (\<lambda>fn. ''No such file or directory''),
      init_zipfile = (\<lambda>b. map_option map_of (map_of zs b)),
      android_serial = None\<rparr>"

text \<open>
  A package with the five entries of the manifest, each one byte long, a package that
  lacks three of them, and a world with both packages, a signature file of 256 bytes and a
  two-byte image.
\<close>

definition sample_package :: "(string \<times> zipentry) list" where
  "sample_package =
     [(''dnx.bin'', stored [1]), (''ifwi.bin'', stored [2]),
      (''stitch.normalos.bin'', stored [3]), (''stitch.preos.bin'', stored [4]),
      (''platform.img.gz'', stored [5])]"

definition partial_package :: "(string \<times> zipentry) list" where
  "partial_package = [(''dnx.bin'', stored [1]), (''stitch.normalos.bin'', stored [3])]"

text \<open>
  An entry that is present and never decompresses, a package with all five entries whose
  \<^verbatim>\<open>ifwi.bin\<close> is such an entry, and a package whose \<^verbatim>\<open>dnx.bin\<close> is such an entry and which
  has no \<^verbatim>\<open>ifwi.bin\<close>.
\<close>

definition corrupt :: zipentry where
  "corrupt = \<lparr>get_zipentry_size = 1, decompress_zipentry = (\<lambda>cap. None)\<rparr>"

definition corrupt_package :: "(string \<times> zipentry) list" where
  "corrupt_package =
     [(''dnx.bin'', stored [1]), (''ifwi.bin'', corrupt),
      (''stitch.normalos.bin'', stored [3]), (''stitch.preos.bin'', stored [4]),
      (''platform.img.gz'', stored [5])]"

definition torn_package :: "(string \<times> zipentry) list" where
  "torn_package = [(''dnx.bin'', corrupt), (''stitch.normalos.bin'', stored [3])]"

text \<open>A signature file of \<open>2 ^ 32 + 256\<close> bytes.\<close>

definition huge_signature :: bytes where
  "huge_signature = replicate 4294967552 0"

definition sample_world :: env where
  "sample_world =
     sample_env
       [(''pkg.zip'', [0x50, 0x4b]), (''bad.zip'', [0x50, 0x4c]),
        (''corrupt.zip'', [0x50, 0x4d]), (''torn.zip'', [0x50, 0x4e]),
        (''sig.bin'', replicate 256 0), (''boot.img'', [7, 7]),
        (''huge.sig'', huge_signature)]
       [([0x50, 0x4b], sample_package), ([0x50, 0x4c], partial_package),
        ([0x50, 0x4d], corrupt_package), ([0x50, 0x4e], torn_package)]"

section \<open>Properties\<close>

subsection \<open>Loading files\<close>

lemma size_as_int_small: "n < 2 ^ 31 \<Longrightarrow> size_as_int n = int n"
  by (simp add: size_as_int_def)

lemma size_as_int_le: "0 \<le> size_as_int n \<Longrightarrow> nat (size_as_int n) \<le> n"
proof -
  have "n mod 2 ^ 32 \<le> n" by (rule mod_less_eq_dividend)
  moreover assume "0 \<le> size_as_int n"
  ultimately show ?thesis
    by (simp add: size_as_int_def Let_def split: if_splits)
qed

lemma load_file_small:
  assumes "files env fn = Some content" and "length content < 2 ^ 31"
    and "malloc_ok env (length content)"
  shows "load_file env fn = Some (content, length content)"
  using assms by (simp add: load_file_def size_as_int_small)

lemma load_file_size:
  assumes "load_file env fn = Some (data, sz)"
  shows "sz = length data"
proof -
  from assms obtain content where c: "files env fn = Some content"
    and nonneg: "0 \<le> size_as_int (length content)"
    and sz: "sz = nat (size_as_int (length content))"
    and data: "data = take sz content"
    by (auto simp add: load_file_def Let_def split: option.splits if_splits)
  from size_as_int_le [OF nonneg] sz have "sz \<le> length content" by simp
  with data show ?thesis by simp
qed

lemma sample_files_raw:
  "files sample_world ''pkg.zip'' = Some [0x50, 0x4b]"
  "files sample_world ''bad.zip'' = Some [0x50, 0x4c]"
  "files sample_world ''sig.bin'' = Some (replicate 256 0)"
  "files sample_world ''boot.img'' = Some [7, 7]"
  "files sample_world ''huge.sig'' = Some huge_signature"
  "malloc_ok sample_world n"
  "files sample_world ''corrupt.zip'' = Some [0x50, 0x4d]"
  "files sample_world ''torn.zip'' = Some [0x50, 0x4e]"
  by (simp_all add: sample_world_def sample_env_def)

subsection \<open>The device matcher\<close>

text \<open>
  C2. For every descriptor \<open>d\<close> and filter \<open>g\<close> (vendor id override, optional serial),
  \<^verbatim>\<open>match_fastboot\<close> accepts (returns 0) if and only if the override is set and equals the
  descriptor's vendor or the vendor is one of the known vendors, and the interface class,
  subclass and protocol are 0xff, 0x42 and 0x03, and the filter's serial is unset or is
  exactly the descriptor's serial string.
\<close>

theorem match_fastboot_iff:
  "match_fastboot g d = 0 \<longleftrightarrow>
     ((override_set g \<and> vendor_id g = dev_vendor d) \<or> dev_vendor d \<in> known_vendors) \<and>
     (ifc_class d, ifc_subclass d, ifc_protocol d) = (0xff, 0x42, 0x03) \<and>
     (serial_unset g \<or> serial g = Some (serial_number d))"
  by (cases "serial g")
     (auto simp add: match_fastboot_def known_vendors_def override_set_def serial_unset_def)

theorem match_fastboot_iff_witness:
  "match_fastboot (initial\<lparr>vendor_id := 0x1234, serial := Some ''A1''\<rparr>)
     \<lparr>dev_vendor = 0x1234, ifc_class = 0xff, ifc_subclass = 0x42, ifc_protocol = 0x03,
      writable = True, serial_number = ''A1''\<rparr> = 0"
  using match_fastboot_iff [of "initial\<lparr>vendor_id := 0x1234, serial := Some ''A1''\<rparr>"
      "\<lparr>dev_vendor = 0x1234, ifc_class = 0xff, ifc_subclass = 0x42, ifc_protocol = 0x03,
        writable = True, serial_number = ''A1''\<rparr>"]
  by (simp add: override_set_def serial_unset_def initial_def)

subsection \<open>The buffer size\<close>

lemma bit_length_eq:
  "2 ^ k \<le> n \<Longrightarrow> n < 2 ^ Suc k \<Longrightarrow> bit_length n = Suc k"
proof (induction k arbitrary: n)
  case 0
  then have "n = 1" by simp
  then show ?case by (simp add: bit_length.simps)
next
  case (Suc k)
  from Suc.prems have "2 ^ k \<le> n div 2" and "n div 2 < 2 ^ Suc k" by simp_all
  then have "bit_length (n div 2) = Suc k" by (rule Suc.IH)
  moreover from Suc.prems have "n \<noteq> 0" by auto
  ultimately show ?case by (subst bit_length.simps) simp
qed

lemma bit_length_le: "n < 2 ^ k \<Longrightarrow> bit_length n \<le> k"
proof (induction k arbitrary: n)
  case 0
  then show ?case by (simp add: bit_length.simps)
next
  case (Suc k)
  show ?case
  proof (cases "n = 0")
    case True
    then show ?thesis by (simp add: bit_length.simps)
  next
    case False
    from Suc.prems have "n div 2 < 2 ^ k" by simp
    then have "bit_length (n div 2) \<le> k" by (rule Suc.IH)
    with False show ?thesis by (subst bit_length.simps) simp
  qed
qed

lemma round_double_ge:
  assumes "k * 2 ^ 52 \<le> num" and "bit_length num \<le> 105"
  shows "k * 2 ^ 52 \<le> round_double num"
proof (cases "bit_length num \<le> 53")
  case True
  with assms show ?thesis by (simp add: round_double_def)
next
  case False
  define sh where "sh = bit_length num - 53"
  have sh: "sh \<le> 52" using assms(2) by (simp add: sh_def)
  have "(2::nat) ^ 52 = 2 ^ (52 - sh) * 2 ^ sh"
    using sh by (simp flip: power_add)
  then have eq: "k * 2 ^ 52 = (k * 2 ^ (52 - sh)) * 2 ^ sh" by simp
  have "k * 2 ^ (52 - sh) \<le> num div 2 ^ sh"
    using assms(1) unfolding eq by (simp add: less_eq_div_iff_mult_less_eq)
  then have "(k * 2 ^ (52 - sh)) * 2 ^ sh \<le> (num div 2 ^ sh) * 2 ^ sh"
    by (rule mult_le_mono1)
  also have "\<dots> \<le> round_double num"
    using False by (simp add: round_double_def Let_def sh_def)
  finally show ?thesis unfolding eq .
qed

lemma product_bits:
  assumes "sz < 2 ^ 32"
  shows "bit_length (sz * double_1_001) \<le> 105"
proof -
  have "sz * double_1_001 < 2 ^ 32 * 2 ^ 53"
    using assms by (intro mult_strict_mono) (simp_all add: double_1_001_def)
  then have "sz * double_1_001 < 2 ^ 105" by simp
  then show ?thesis by (rule bit_length_le)
qed

lemma round_product_ge:
  assumes "sz < 2 ^ 32"
  shows "sz * 2 ^ 52 \<le> round_double (sz * double_1_001)"
  using product_bits [OF assms]
  by (intro round_double_ge) (simp_all add: double_1_001_def)

lemma round_product_gt:
  assumes "1001 \<le> sz" and "sz < 2 ^ 32"
  shows "(sz + 1) * 2 ^ 52 \<le> round_double (sz * double_1_001)"
proof (rule round_double_ge)
  have "sz * 2 ^ 52 + 1001 * 4503599627370 \<le> sz * 2 ^ 52 + sz * 4503599627370"
    using assms(1) by simp
  then show "(sz + 1) * 2 ^ 52 \<le> sz * double_1_001"
    by (simp add: double_1_001_def)
  show "bit_length (sz * double_1_001) \<le> 105"
    using assms(2) by (rule product_bits)
qed

lemma times_1_001_bounds:
  assumes "sz < 2 ^ 32" and "times_1_001 sz = Some datasz"
  shows "sz \<le> datasz" and "1001 \<le> sz \<Longrightarrow> sz < datasz"
proof -
  have d: "datasz = round_double (sz * double_1_001) div 2 ^ 52"
    using assms(2) by (simp add: times_1_001_def Let_def split: if_splits)
  have "sz * 2 ^ 52 div 2 ^ 52 \<le> round_double (sz * double_1_001) div 2 ^ 52"
    using round_product_ge [OF assms(1)] by (rule div_le_mono)
  then show "sz \<le> datasz" by (simp add: d)
  assume "1001 \<le> sz"
  then have "(sz + 1) * 2 ^ 52 div 2 ^ 52 \<le> round_double (sz * double_1_001) div 2 ^ 52"
    using round_product_gt [OF _ assms(1)] by (intro div_le_mono)
  then show "sz < datasz" by (simp add: d)
qed

lemma times_1_001_one: "times_1_001 1 = Some 1"
proof -
  have "bit_length double_1_001 \<le> 53"
    by (rule bit_length_le) (simp add: double_1_001_def)
  then have "round_double (1 * double_1_001) = double_1_001"
    by (simp add: round_double_def)
  then show ?thesis
    by (simp add: times_1_001_def double_1_001_def)
qed

lemma times_1_001_1001: "times_1_001 1001 = Some 1002"
proof -
  have "bit_length (1001 * double_1_001) = Suc 61"
    by (rule bit_length_eq) (simp_all add: double_1_001_def)
  then have "round_double (1001 * double_1_001) = 4512611330224863744"
    by (simp add: round_double_def double_1_001_def)
  then show ?thesis
    by (simp add: times_1_001_def)
qed

lemma round_double_le:
  assumes "bit_length num \<le> 62"
  shows "round_double num \<le> num + 256"
proof (cases "bit_length num \<le> 53")
  case True
  then show ?thesis by (simp add: round_double_def)
next
  case False
  define sh where "sh = bit_length num - 53"
  define q where "q = num div 2 ^ sh"
  define r where "r = num mod 2 ^ sh"
  define half :: nat where "half = 2 ^ (sh - 1)"
  have sh: "1 \<le> sh" "sh \<le> 9" using assms False by (simp_all add: sh_def)
  have num: "num = q * 2 ^ sh + r" unfolding q_def r_def by (rule div_mult_mod_eq [symmetric])
  have two: "(2::nat) ^ sh = 2 * half"
    using sh(1) by (simp add: half_def flip: power_Suc)
  have "(2::nat) ^ (sh - 1) \<le> 2 ^ 8" using sh(2) by (intro power_increasing) simp_all
  then have half: "half \<le> 256" by (simp add: half_def)
  have rd: "round_double num = (if half < r \<or> (r = half \<and> odd q) then q + 1 else q) * 2 ^ sh"
    using False by (simp add: round_double_def Let_def sh_def q_def r_def half_def)
  show ?thesis
  proof (cases "half < r \<or> (r = half \<and> odd q)")
    case True
    then have "half \<le> r" by auto
    have "round_double num = q * 2 ^ sh + 2 * half" using True rd two by (simp add: algebra_simps)
    also have "\<dots> \<le> q * 2 ^ sh + r + half" using \<open>half \<le> r\<close> by simp
    also have "\<dots> \<le> num + 256" using half num by simp
    finally show ?thesis .
  next
    case False
    then have "round_double num = q * 2 ^ sh" using rd by simp
    then show ?thesis using num by simp
  qed
qed

lemma times_1_001_small:
  assumes "sz \<le> 1000"
  shows "times_1_001 sz = Some sz"
proof -
  let ?num = "sz * double_1_001"
  have "?num \<le> 1000 * double_1_001" using assms by simp
  then have lt: "?num < 2 ^ 62" by (simp add: double_1_001_def)
  then have "bit_length ?num \<le> 62" by (rule bit_length_le)
  then have "round_double ?num \<le> ?num + 256" by (rule round_double_le)
  moreover have "sz * 4503599627370 + 256 < 2 ^ 52" using assms by simp
  ultimately have "round_double ?num < (sz + 1) * 2 ^ 52"
    by (simp add: double_1_001_def algebra_simps)
  then have up: "round_double ?num div 2 ^ 52 < sz + 1"
    by (simp add: less_mult_imp_div_less)
  have "sz < 2 ^ 32" using assms by simp
  then have "sz * 2 ^ 52 \<le> round_double ?num" by (rule round_product_ge)
  then have "sz * 2 ^ 52 div 2 ^ 52 \<le> round_double ?num div 2 ^ 52" by (rule div_le_mono)
  then have "sz \<le> round_double ?num div 2 ^ 52" by simp
  with up have "round_double ?num div 2 ^ 52 = sz" by simp
  then show ?thesis using assms by (simp add: times_1_001_def)
qed

text \<open>
  C9, as the code has it. For every archive entry that \<^verbatim>\<open>unzip_file\<close> finds, with nominal
  size \<open>sz\<close> (as the unsigned 32-bit \<^verbatim>\<open>*sz\<close>) whose product with 1.001 has an unsigned
  value \<open>datasz\<close>: the buffer is requested from \<^verbatim>\<open>malloc\<close> and handed to
  \<^verbatim>\<open>decompress_zipentry\<close> with capacity \<open>datasz\<close>, the capacity is never below the nominal
  size, and it is strictly above it exactly for nominal sizes of 1001 bytes or more (for
  sizes up to 1000 the fraction is dropped and the capacity is the nominal size).
\<close>

theorem unzip_file_capacity:
  assumes "zp name = Some entry"
    and "sz = get_zipentry_size entry mod 2 ^ 32"
    and "times_1_001 sz = Some datasz"
  shows "sz \<le> datasz \<and> (sz < datasz \<longleftrightarrow> 1001 \<le> sz) \<and>
    unzip_file env zp name =
      (if \<not> malloc_ok env datasz then Null
       else (case decompress_zipentry entry datasz of
               None \<Rightarrow> Null
             | Some data \<Rightarrow> Unzipped data sz))"
proof -
  have lt: "sz < 2 ^ 32" using assms(2) by simp
  have "sz \<le> datasz" using lt assms(3) by (rule times_1_001_bounds)
  moreover have "sz < datasz" if "1001 \<le> sz"
    using lt assms(3) that by (rule times_1_001_bounds)
  moreover have "1001 \<le> sz" if "sz < datasz"
  proof (rule ccontr)
    assume "\<not> 1001 \<le> sz"
    then have "sz \<le> 1000" by simp
    then have "times_1_001 sz = Some sz" by (rule times_1_001_small)
    with assms(3) that show False by simp
  qed
  moreover have "unzip_file env zp name =
      (if \<not> malloc_ok env datasz then Null
       else (case decompress_zipentry entry datasz of
               None \<Rightarrow> Null
             | Some data \<Rightarrow> Unzipped data sz))"
    using assms(1,3) unfolding assms(2)
    by (auto simp add: unzip_file_def Let_def split: option.splits)
  ultimately show ?thesis by blast
qed

theorem unzip_file_capacity_witness:
  "times_1_001 (length (replicate 1001 (0 :: 8 word))) = Some 1002 \<and>
   unzip_file (sample_env [] []) (map_of [(''dnx.bin'', stored (replicate 1001 0))]) ''dnx.bin'' =
     Unzipped (replicate 1001 0) 1001"
  using unzip_file_capacity [of "map_of [(''dnx.bin'', stored (replicate 1001 0))]" "''dnx.bin''"
      "stored (replicate 1001 0)" 1001 1002 "sample_env [] []"] times_1_001_1001
  by (simp add: stored_def sample_env_def)

text \<open>
  An entry of nominal size 1: the capacity requested is 1, not more. The entry below
  decompresses only into a buffer of capacity exactly 1, and \<^verbatim>\<open>unzip_file\<close> succeeds on it.
\<close>

theorem unzip_file_capacity_size_one:
  "times_1_001 1 = Some 1 \<and>
   unzip_file (sample_env [] [])
     (map_of [(''dnx.bin'',
        \<lparr>get_zipentry_size = 1,
         decompress_zipentry = (\<lambda>cap. if cap = 1 then Some [0x2a] else None)\<rparr>)])
     ''dnx.bin'' = Unzipped [0x2a] 1"
  using times_1_001_one by (simp add: unzip_file_def sample_env_def)


subsection \<open>The command loop, one command at a time\<close>

lemma flash_entry_Inr:
  "flash_entry env zp name fmt ptn s = Inr s' \<Longrightarrow>
     \<exists>data sz. unzip_file env zp name = Unzipped data sz \<and> s' = s\<lparr>queue := queue s @ [Flash ptn data sz]\<rparr>"
  by (auto simp add: flash_entry_def fb_queue_flash_def enqueue_def split: unzipped.splits)

lemma queue_info_dump_eq:
  "queue_info_dump s = s\<lparr>queue := queue s @ info_dump\<rparr>"
  by (simp add: queue_info_dump_def info_dump_def fb_queue_notice_def fb_queue_display_def
      enqueue_def)

lemma do_flashall_Inr:
  assumes "do_flashall env fn s = Inr s'"
  shows "\<exists>ops. s' = s\<lparr>queue := queue s @ ops\<rparr> \<and> (\<forall>a\<in>set ops. \<not> trailer_op a)"
proof -
  from assms obtain zdata zsize zp s1 s2 s3 s4 where
    e1: "flash_entry env zp FW_DNX_BIN ''package missing %s'' ''dnx'' (queue_info_dump s) = Inr s1"
    and e2: "flash_entry env zp IFWI_BIN ''package missing %s'' ''ifwi'' s1 = Inr s2"
    and e3: "flash_entry env zp NORMALOS_BIN ''package missing %s'' ''boot'' s2 = Inr s3"
    and e4: "flash_entry env zp PREOS_BIN (''package missing %s'' @ newline) ''preos'' s3 = Inr s4"
    and e5: "flash_entry env zp PLATFORM_IMG (''package missing %s'' @ newline) ''platform'' s4 = Inr s'"
    by (auto simp add: do_flashall_def Let_def split: option.splits prod.splits sum.splits)
  from e1 e2 e3 e4 e5 show ?thesis
    by (auto dest!: flash_entry_Inr simp add: queue_info_dump_eq info_dump_def trailer_op_def)
qed


lemma do_oem_command_Inr:
  "do_oem_command argv s = Inr s' \<Longrightarrow>
     s' = s \<or> (length argv > 1 \<and> (\<exists>c. oem_loop [] (hd argv) (tl argv) = Some c \<and> s' = s\<lparr>queue := queue s @ [Command c []]\<rparr>))"
  by (auto simp add: do_oem_command_def fb_queue_command_def enqueue_def split: if_splits option.splits)

lemma body_serial:
  "loop_body env s ''-s'' argv =
     (case argv of [] \<Rightarrow> Inl (Usage, s) | a1 # rest \<Rightarrow> Inr (s\<lparr>serial := Some a1\<rparr>, rest))"
  by (simp add: loop_body_def)

lemma body_vendor:
  "loop_body env s ''-i'' argv =
     (case argv of
        [] \<Rightarrow> Inl (Usage, s)
      | a1 # rest \<Rightarrow>
          (case vendor_id_arg a1 of
             None \<Rightarrow> Inl (Die (''invalid vendor id '%s'' @ [CHR 0x27]) [a1], s)
           | Some v \<Rightarrow> Inr (s\<lparr>vendor_id := v\<rparr>, rest)))"
  by (simp add: loop_body_def)

lemma body_getvar:
  "loop_body env s ''getvar'' argv =
     (case argv of [] \<Rightarrow> Inl (Usage, s) | a1 # rest \<Rightarrow> Inr (fb_queue_display a1 a1 s, rest))"
  by (simp add: loop_body_def)

lemma body_erase:
  "loop_body env s ''erase'' argv =
     (case argv of [] \<Rightarrow> Inl (Usage, s) | a1 # rest \<Rightarrow> Inr (fb_queue_erase a1 s, rest))"
  by (simp add: loop_body_def)

lemma body_signature:
  "loop_body env s ''signature'' argv =
     (case argv of
        [] \<Rightarrow> Inl (Usage, s)
      | a1 # rest \<Rightarrow>
          (case load_file env a1 of
             None \<Rightarrow> Inl (Die ''could not load '%s': %s'' [a1, strerror_errno env a1], s)
           | Some (data, sz) \<Rightarrow>
               if sz \<noteq> 256 then Inl (Die ''signature must be 256 bytes'' [], s)
               else Inr (fb_queue_command ''signature'' ''installing signature''
                           (fb_queue_download ''signature'' data sz s),
                         rest)))"
  by (simp add: loop_body_def)

lemma body_reboot:
  "loop_body env s ''reboot'' argv = Inr (s\<lparr>wants_reboot := True\<rparr>, argv)"
  by (simp add: loop_body_def)

lemma body_reboot_bootloader:
  "loop_body env s ''reboot-bootloader'' argv = Inr (s\<lparr>wants_reboot_bootloader := True\<rparr>, argv)"
  by (simp add: loop_body_def)

lemma body_continue:
  "loop_body env s ''continue'' argv =
     Inr (fb_queue_command ''continue'' ''resuming boot'' s, argv)"
  by (simp add: loop_body_def)

lemma body_flash:
  "loop_body env s ''flash'' argv =
     (case argv of
        pname # fname # rest \<Rightarrow>
          (case load_file env fname of
             None \<Rightarrow>
               Inl (Die (''cannot load '%s': %s'' @ newline) [fname, strerror_errno env fname], s)
           | Some (data, sz) \<Rightarrow> Inr (fb_queue_flash pname data sz s, rest))
      | _ \<Rightarrow> Inl (Usage, s))"
  by (simp add: loop_body_def)

lemma body_flashall:
  "loop_body env s ''flashall'' argv =
     (case argv of
        [] \<Rightarrow> Inl (Usage, s)
      | a1 # rest \<Rightarrow>
          (case do_flashall env a1 s of
             Inl e \<Rightarrow> Inl e
           | Inr s' \<Rightarrow> Inr (s'\<lparr>wants_reboot := True\<rparr>, rest)))"
  by (simp add: loop_body_def)

lemma body_oem:
  "loop_body env s ''oem'' argv =
     (case do_oem_command (''oem'' # argv) s of Inl e \<Rightarrow> Inl e | Inr s' \<Rightarrow> Inr (s', []))"
  by (simp add: loop_body_def)

lemma body_unrecognized:
  "a \<notin> set recognized \<Longrightarrow> loop_body env s a argv = Inl (Usage, s)"
  by (simp add: loop_body_def recognized_def)


lemma recognized_iff:
  "a \<in> set recognized \<longleftrightarrow>
     a = ''-s'' \<or> a = ''-i'' \<or> a = ''getvar'' \<or> a = ''erase'' \<or> a = ''signature'' \<or>
     a = ''reboot'' \<or> a = ''reboot-bootloader'' \<or> a = ''continue'' \<or> a = ''flash'' \<or>
     a = ''flashall'' \<or> a = ''oem''"
  by (simp add: recognized_def)

lemma recognized_cases:
  assumes "a \<in> set recognized"
  obtains (serial) "a = ''-s''" | (vendor) "a = ''-i''" | (getvar) "a = ''getvar''"
    | (erase) "a = ''erase''" | (signature) "a = ''signature''" | (reboot) "a = ''reboot''"
    | (bootloader) "a = ''reboot-bootloader''" | (continue) "a = ''continue''"
    | (flash) "a = ''flash''" | (flashall) "a = ''flashall''" | (oem) "a = ''oem''"
  using assms [unfolded recognized_iff] by (elim disjE)

lemma loop_body_Inr:
  assumes "loop_body env s a argv = Inr (s', argv')"
  shows "wants_reboot s' = (wants_reboot s \<or> a = ''reboot'' \<or> a = ''flashall'') \<and>
    wants_reboot_bootloader s' = (wants_reboot_bootloader s \<or> a = ''reboot-bootloader'') \<and>
    (\<exists>ops. queue s' = queue s @ ops \<and> (\<forall>x\<in>set ops. \<not> trailer_op x)) \<and>
    argv' = (if a = ''oem'' then [] else drop (arity a - 1) argv)"
proof (cases "a \<in> set recognized")
  case False
  with assms show ?thesis by (simp add: body_unrecognized)
next
  case True
  then show ?thesis
  proof (cases rule: recognized_cases)
    case serial
    with assms show ?thesis
      by (auto simp add: body_serial arity_def split: list.splits)
  next
    case vendor
    with assms show ?thesis
      by (auto simp add: body_vendor arity_def split: list.splits option.splits)
  next
    case getvar
    with assms show ?thesis
      by (auto simp add: body_getvar arity_def fb_queue_display_def enqueue_def trailer_op_def
          split: list.splits)
  next
    case erase
    with assms show ?thesis
      by (auto simp add: body_erase arity_def fb_queue_erase_def enqueue_def trailer_op_def
          split: list.splits)
  next
    case signature
    with assms show ?thesis
      by (auto simp add: body_signature arity_def fb_queue_command_def fb_queue_download_def
          enqueue_def trailer_op_def split: list.splits option.splits if_splits)
  next
    case reboot
    with assms show ?thesis by (auto simp add: body_reboot arity_def)
  next
    case bootloader
    with assms show ?thesis by (auto simp add: body_reboot_bootloader arity_def)
  next
    case continue
    with assms show ?thesis
      by (auto simp add: body_continue arity_def fb_queue_command_def enqueue_def trailer_op_def)
  next
    case flash
    with assms show ?thesis
      by (auto simp add: body_flash arity_def fb_queue_flash_def enqueue_def trailer_op_def
          split: list.splits option.splits)
  next
    case flashall
    with assms show ?thesis
      by (auto simp add: body_flashall arity_def dest!: do_flashall_Inr
          split: list.splits sum.splits)
  next
    case oem
    with assms show ?thesis
      by (auto simp add: body_oem trailer_op_def dest!: do_oem_command_Inr split: sum.splits)
  qed
qed


lemma command_loop_Cons_Inr:
  assumes "command_loop env s (a # argv) = Inr s'"
  obtains s1 argv1 where "loop_body env s a argv = Inr (s1, argv1)"
    and "command_loop env s1 argv1 = Inr s'"
  using assms by (auto split: sum.splits)

lemma intent_step:
  assumes "w' = (w1 \<or> R \<in> X \<or> F \<in> X)" and "w1 = (w \<or> a = R \<or> a = F)"
  shows "w' = (w \<or> R \<in> insert a X \<or> F \<in> insert a X)"
  using assms by auto

lemma command_tokens_Cons:
  "a \<noteq> ''oem'' \<Longrightarrow>
     set (command_tokens (a # argv)) = insert a (set (command_tokens (drop (arity a - 1) argv)))"
  by simp

lemma intent_step1:
  assumes "w' = (w1 \<or> R \<in> X)" and "w1 = (w \<or> a = R)"
  shows "w' = (w \<or> R \<in> insert a X)"
  using assms by auto

lemma loop_flags_queue:
  assumes "command_loop env s ts = Inr s'"
  shows "wants_reboot s' =
      (wants_reboot s \<or> ''reboot'' \<in> set (command_tokens ts) \<or>
       ''flashall'' \<in> set (command_tokens ts))"
    and "wants_reboot_bootloader s' =
      (wants_reboot_bootloader s \<or> ''reboot-bootloader'' \<in> set (command_tokens ts))"
    and "\<exists>ops. queue s' = queue s @ ops \<and> (\<forall>a\<in>set ops. \<not> trailer_op a)"
  using assms
proof (induction env s ts arbitrary: s' rule: command_loop.induct)
  case (1 env s)
  {
    case 1
    then show ?case by simp
  next
    case 2
    then show ?case by simp
  next
    case 3
    then show ?case by simp
  }
next
  case (2 env s a argv)
  have step: "wants_reboot s' =
      (wants_reboot s \<or> ''reboot'' \<in> set (command_tokens (a # argv)) \<or>
       ''flashall'' \<in> set (command_tokens (a # argv))) \<and>
     wants_reboot_bootloader s' =
      (wants_reboot_bootloader s \<or>
       ''reboot-bootloader'' \<in> set (command_tokens (a # argv))) \<and>
     (\<exists>ops. queue s' = queue s @ ops \<and> (\<forall>a\<in>set ops. \<not> trailer_op a))"
    if run: "command_loop env s (a # argv) = Inr s'" for s'
  proof -
    from run obtain s1 argv1 where
      body: "loop_body env s a argv = Inr (s1, argv1)"
      and rest: "command_loop env s1 argv1 = Inr s'"
      by (rule command_loop_Cons_Inr)
    note b = loop_body_Inr [OF body]
    from b have b1: "wants_reboot s1 = (wants_reboot s \<or> a = ''reboot'' \<or> a = ''flashall'')"
      by (rule conjunct1)
    from b have b2: "wants_reboot_bootloader s1 =
        (wants_reboot_bootloader s \<or> a = ''reboot-bootloader'')"
      by blast
    from b obtain ops1 where o1: "queue s1 = queue s @ ops1" "\<forall>a\<in>set ops1. \<not> trailer_op a"
      by blast
    from b have b4: "argv1 = (if a = ''oem'' then [] else drop (arity a - 1) argv)"
      by blast
    note r1 = "2.IH"(1) [OF body refl rest]
    note r2 = "2.IH"(2) [OF body refl rest]
    from "2.IH"(3) [OF body refl rest]
    obtain ops2 where o2: "queue s' = queue s1 @ ops2" "\<forall>a\<in>set ops2. \<not> trailer_op a"
      by blast
    have q: "\<exists>ops. queue s' = queue s @ ops \<and> (\<forall>a\<in>set ops. \<not> trailer_op a)"
      using o1 o2 by (intro exI [of _ "ops1 @ ops2"]) auto
    show ?thesis
    proof (cases "a = ''oem''")
      case True
      with b1 b2 b4 r1 r2 q show ?thesis by simp
    next
      case False
      then have argv1: "argv1 = drop (arity a - 1) argv" using b4 by (simp only: if_False)
      note ct = command_tokens_Cons [OF False, of argv, folded argv1]
      from intent_step [OF r1 b1] intent_step1 [OF r2 b2] q
      show ?thesis unfolding ct by (intro conjI)
    qed
  qed
  {
    case 1
    from step [OF "1"] show ?case by (rule conjunct1)
  next
    case 2
    from step [OF "2"] show ?case by blast
  next
    case 3
    from step [OF "3"] show ?case by blast
  }
qed

lemma length_ge_1: "Suc 0 \<le> length xs \<Longrightarrow> \<exists>x xs'. xs = x # xs'"
  by (cases xs) simp_all

lemma length_ge_2: "2 \<le> length xs \<Longrightarrow> \<exists>x y xs'. xs = x # y # xs'"
  by (cases xs; cases "tl xs") simp_all

lemma loop_body_append:
  assumes "a \<in> set recognized" and "a \<noteq> ''oem''" and "arity a - 1 \<le> length argv"
  shows "loop_body env s a (argv @ post) =
     (case loop_body env s a argv of
        Inl e \<Rightarrow> Inl e
      | Inr (s1, argv1) \<Rightarrow> Inr (s1, argv1 @ post))"
  using assms(1)
proof (cases rule: recognized_cases)
  case serial
  with assms(3) obtain x xs where "argv = x # xs"
    using length_ge_1 [of argv] by (auto simp add: arity_def)
  with serial show ?thesis by (simp add: body_serial)
next
  case vendor
  with assms(3) obtain x xs where "argv = x # xs"
    using length_ge_1 [of argv] by (auto simp add: arity_def)
  with vendor show ?thesis by (simp add: body_vendor split: option.splits)
next
  case getvar
  with assms(3) obtain x xs where "argv = x # xs"
    using length_ge_1 [of argv] by (auto simp add: arity_def)
  with getvar show ?thesis by (simp add: body_getvar)
next
  case erase
  with assms(3) obtain x xs where "argv = x # xs"
    using length_ge_1 [of argv] by (auto simp add: arity_def)
  with erase show ?thesis by (simp add: body_erase)
next
  case signature
  with assms(3) obtain x xs where "argv = x # xs"
    using length_ge_1 [of argv] by (auto simp add: arity_def)
  with signature show ?thesis by (simp add: body_signature split: option.splits)
next
  case reboot
  then show ?thesis by (simp add: body_reboot)
next
  case bootloader
  then show ?thesis by (simp add: body_reboot_bootloader)
next
  case continue
  then show ?thesis by (simp add: body_continue)
next
  case flash
  with assms(3) obtain x y xs where "argv = x # y # xs"
    using length_ge_2 [of argv] by (auto simp add: arity_def)
  with flash show ?thesis by (simp add: body_flash split: option.splits)
next
  case flashall
  with assms(3) obtain x xs where "argv = x # xs"
    using length_ge_1 [of argv] by (auto simp add: arity_def)
  with flashall show ?thesis by (simp add: body_flashall split: sum.splits)
next
  case oem
  with assms(2) show ?thesis by simp
qed

lemma command_loop_append:
  "complete pre \<Longrightarrow>
     command_loop env s (pre @ post) =
       (case command_loop env s pre of
          Inl e \<Rightarrow> Inl e
        | Inr s1 \<Rightarrow> command_loop env s1 post)"
proof (induction env s pre rule: command_loop.induct)
  case (1 env s)
  show ?case by simp
next
  case (2 env s a argv)
  from "2.prems" have ok: "a \<in> set recognized" "a \<noteq> ''oem''" "arity a - 1 \<le> length argv"
    and rest: "complete (drop (arity a - 1) argv)"
    by simp_all
  note app = loop_body_append [OF ok, of env s post]
  show ?case
  proof (cases "loop_body env s a argv")
    case (Inl e)
    with app show ?thesis by simp
  next
    case (Inr r)
    obtain s1 argv1 where r: "r = (s1, argv1)" by (cases r)
    from Inr r have body: "loop_body env s a argv = Inr (s1, argv1)" by simp
    from loop_body_Inr [OF body] ok(2) have "argv1 = drop (arity a - 1) argv" by simp
    with rest have "complete argv1" by simp
    from "2.IH" [OF body refl this] app body show ?thesis by simp
  qed
qed

lemma complete_hd: "complete pre \<Longrightarrow> pre \<noteq> [] \<Longrightarrow> hd pre \<in> set recognized"
  by (cases pre) simp_all

lemma recognized_not_first: "a \<in> set recognized \<Longrightarrow> a \<noteq> ''devices'' \<and> a \<noteq> ''help''"
  by (erule recognized_cases) simp_all

lemma main_loop:
  assumes "ts \<noteq> []" and "hd ts \<noteq> ''devices''" and "hd ts \<noteq> ''help''"
  shows "main env (prog # ts) =
     (case command_loop env (initial\<lparr>serial := android_serial env\<rparr>) ts of
        Inl (e, s) \<Rightarrow> Stopped e s
      | Inr s \<Rightarrow> Executed (resolve_reboot s))"
  using assms by (simp add: main_def)

lemma resolve_reboot_queue:
  "resolve_reboot s =
     s\<lparr>queue := queue s @
       (if wants_reboot s then [Reboot]
        else if wants_reboot_bootloader s
        then [Command ''reboot-bootloader'' ''rebooting into bootloader'']
        else [])\<rparr>"
  by (simp add: resolve_reboot_def fb_queue_reboot_def fb_queue_command_def enqueue_def)

lemma sample_serial: "android_serial sample_world = None"
  by (simp add: sample_world_def sample_env_def)

subsection \<open>The vendor command\<close>

lemma oem_loop_join:
  "oem_loop c a rest =
     (if length (c @ join_spaces (a # rest)) < 256 then Some (c @ join_spaces (a # rest))
      else None)"
proof (induction rest arbitrary: c a)
  case Nil
  show ?case by (subst oem_loop.simps) (simp add: strcat_256_def)
next
  case (Cons b rest)
  show ?case
    by (subst oem_loop.simps) (auto simp add: strcat_256_def Cons.IH)
qed

text \<open>
  C8, as the code has it. For every token stream whose leading token is \<^verbatim>\<open>oem\<close> and whose
  tokens, joined with single spaces, fit the 256 bytes of the command buffer: the loop
  consumes all the tokens and ends; when at least one token follows \<^verbatim>\<open>oem\<close> it appends
  exactly one Command carrying the tokens from \<^verbatim>\<open>oem\<close> on, joined with single spaces, and
  an empty description; when \<^verbatim>\<open>oem\<close> is the last token it appends nothing.
\<close>

theorem oem_command:
  assumes "length (join_spaces (''oem'' # ws)) < 256"
  shows "command_loop env s (''oem'' # ws) =
     Inr (if ws = [] then s
          else s\<lparr>queue := queue s @ [Command (join_spaces (''oem'' # ws)) []]\<rparr>)"
proof (cases ws)
  case Nil
  then show ?thesis by (simp add: body_oem do_oem_command_def)
next
  case (Cons w ws')
  with assms show ?thesis
    by (simp add: body_oem do_oem_command_def oem_loop_join fb_queue_command_def enqueue_def)
qed

theorem oem_command_witness:
  "command_loop (sample_env [] []) initial [''oem'', ''unlock'', ''now''] =
     Inr (initial\<lparr>queue := [Command ''oem unlock now'' []]\<rparr>)"
  using oem_command [of "[''unlock'', ''now'']" "sample_env [] []" initial]
  by (simp add: initial_def)

text \<open>
  \<^verbatim>\<open>fastboot oem\<close>: the leading token is \<^verbatim>\<open>oem\<close>, and the queue handed to the engine is
  empty. No Command was appended.
\<close>

theorem oem_alone_appends_nothing:
  "final_queue (main (sample_env [] []) [''fastboot'', ''oem'']) = Some []"
  by (simp add: main_def body_oem do_oem_command_def resolve_reboot_def initial_def
      sample_env_def)

subsection \<open>The signature command\<close>

text \<open>
  The \<^verbatim>\<open>signature\<close> branch, in any state and whatever follows, for a file that
  \<^verbatim>\<open>load_file\<close> returns with size \<open>sz\<close>: when \<open>sz\<close> is not 256 the run stops with
  \<^verbatim>\<open>die("signature must be 256 bytes")\<close> and the queue as it was; when it is 256 the loop
  goes on with a Download of the bytes under the name "signature" appended, immediately
  followed by the Command "signature".
\<close>

lemma signature_branch:
  assumes "load_file env f = Some (data, sz)"
  shows "sz = length data \<and>
    (sz \<noteq> 256 \<longrightarrow>
       command_loop env s (''signature'' # f # rest) =
         Inl (Die ''signature must be 256 bytes'' [], s)) \<and>
    (sz = 256 \<longrightarrow>
       command_loop env s (''signature'' # f # rest) =
         command_loop env
           (s\<lparr>queue := queue s @
              [Download ''signature'' data 256, Command ''signature'' ''installing signature'']\<rparr>)
           rest)"
proof -
  have "sz = length data"
    using assms by (rule load_file_size)
  then show ?thesis
    using assms
    by (simp add: body_signature fb_queue_command_def fb_queue_download_def enqueue_def)
qed

lemma signature_branch_samples:
  "main (sample_env [(''sig.bin'', replicate 255 0)] []) [''fastboot'', ''signature'', ''sig.bin''] =
     Stopped (Die ''signature must be 256 bytes'' []) initial \<and>
   main (sample_env [(''sig.bin'', replicate 256 0)] []) [''fastboot'', ''signature'', ''sig.bin''] =
     Executed (initial\<lparr>queue :=
       [Download ''signature'' (replicate 256 0) 256,
        Command ''signature'' ''installing signature'']\<rparr>)"
  using signature_branch [of "sample_env [(''sig.bin'', replicate 255 0)] []" "''sig.bin''"
      "replicate 255 0" 255 initial "[]"]
    signature_branch [of "sample_env [(''sig.bin'', replicate 256 0)] []" "''sig.bin''"
      "replicate 256 0" 256 initial "[]"]
  by (simp add: main_def load_file_def size_as_int_small sample_env_def resolve_reboot_def
      initial_def)

lemma huge_load: "load_file sample_world ''huge.sig'' = Some (replicate 256 0, 256)"
proof -
  have l: "length huge_signature = 4294967552" by (simp add: huge_signature_def)
  have s: "size_as_int 4294967552 = 256" by (simp add: size_as_int_def)
  have t: "take 256 huge_signature = replicate 256 0" by (simp add: huge_signature_def)
  show ?thesis
    by (simp add: load_file_def sample_files_raw l s t)
qed

text \<open>
  C6 at a signature file of \<open>2 ^ 32 + 256\<close> bytes, which is not 256 bytes: \<^verbatim>\<open>load_file\<close>
  keeps the size in an \<^verbatim>\<open>int\<close>, where it is 256, and returns the first 256 bytes. The
  \<^verbatim>\<open>signature\<close> command does not stop with "signature must be 256 bytes": it queues the
  Download of those bytes and the Command, and the queue is handed over.
\<close>

theorem signature_of_huge_file:
  "files sample_world ''huge.sig'' = Some huge_signature \<and>
   length huge_signature = 2 ^ 32 + 256 \<and>
   load_file sample_world ''huge.sig'' = Some (replicate 256 0, 256) \<and>
   main sample_world [''fastboot'', ''signature'', ''huge.sig''] =
     Executed (initial\<lparr>queue :=
       [Download ''signature'' (replicate 256 0) 256,
        Command ''signature'' ''installing signature'']\<rparr>)"
proof -
  have "length huge_signature = 2 ^ 32 + 256" by (simp add: huge_signature_def)
  moreover have "main sample_world [''fastboot'', ''signature'', ''huge.sig''] =
     Executed (initial\<lparr>queue :=
       [Download ''signature'' (replicate 256 0) 256,
        Command ''signature'' ''installing signature'']\<rparr>)"
    by (simp add: main_def body_signature huge_load fb_queue_command_def fb_queue_download_def
        enqueue_def resolve_reboot_queue sample_serial initial_def)
  ultimately show ?thesis using huge_load sample_files_raw(5) by simp
qed

subsection \<open>The package planner\<close>

lemma flash_entry_Unzipped:
  "unzip_file env zp name = Unzipped data sz \<Longrightarrow>
     flash_entry env zp name fmt ptn s = Inr (s\<lparr>queue := queue s @ [Flash ptn data sz]\<rparr>)"
  by (simp add: flash_entry_def fb_queue_flash_def enqueue_def)

lemma flash_entry_Null:
  "unzip_file env zp name = Null \<Longrightarrow> flash_entry env zp name fmt ptn s = Inl (Die fmt [name], s)"
  by (simp add: flash_entry_def)

lemma do_flashall_blocks:
  "do_flashall env fn s =
     (case load_file env fn of
        None \<Rightarrow>
          Inl (Die ''failed to load '%s': %s'' [fn, strerror_errno env fn], queue_info_dump s)
      | Some (zdata, zsize) \<Rightarrow>
          (case init_zipfile env zdata of
             None \<Rightarrow>
               Inl (Die (''failed to access zipdata in '%s'' @ [CHR 0x27]) [], queue_info_dump s)
           | Some zp \<Rightarrow> flash_entries env zp blocks (queue_info_dump s)))"
  by (simp add: do_flashall_def blocks_def Let_def split: option.splits prod.splits sum.splits)

lemma manifest_blocks: "manifest = map (\<lambda>(n, f, p). (n, p)) blocks"
  by (simp add: manifest_def blocks_def FW_DNX_BIN_def IFWI_BIN_def NORMALOS_BIN_def
      PREOS_BIN_def PLATFORM_IMG_def)

lemma flashes_Cons:
  "unzip_file env zp n = Unzipped data sz \<Longrightarrow>
     flashes env zp ((n, p) # es) = Flash p data sz # flashes env zp es"
  by (simp add: flashes_def flash_of_def)

lemma flashes_Nil: "flashes env zp [] = []"
  by (simp add: flashes_def)

lemma flash_entries_stop:
  assumes "list_all (extracts env zp) (map fst pre)" and "unzip_file env zp name = Null"
  shows "flash_entries env zp (pre @ (name, fmt, ptn) # post) s =
     Inl (Die fmt [name], s\<lparr>queue := queue s @ flashes env zp (map (\<lambda>(n, f, p). (n, p)) pre)\<rparr>)"
  using assms(1)
proof (induction pre arbitrary: s)
  case Nil
  show ?case using assms(2) by (simp add: flash_entry_Null flashes_Nil)
next
  case (Cons e pre)
  obtain n f p where e: "e = (n, f, p)" by (cases e)
  from Cons.prems e obtain data sz where u: "unzip_file env zp n = Unzipped data sz"
    by (auto simp add: extracts_def split: unzipped.splits)
  from Cons.prems have "list_all (extracts env zp) (map fst pre)" by simp
  note IH = Cons.IH [OF this]
  show ?case
    by (simp add: e flash_entry_Unzipped [OF u] IH flashes_Cons [OF u])
qed


lemma times_1_001_Suc_0: "times_1_001 (Suc 0) = Some (Suc 0)"
  using times_1_001_one by simp

lemma sample_unzip:
  "unzip_file sample_world (map_of sample_package) ''dnx.bin'' = Unzipped [1] 1"
  "unzip_file sample_world (map_of sample_package) ''ifwi.bin'' = Unzipped [2] 1"
  "unzip_file sample_world (map_of sample_package) ''stitch.normalos.bin'' = Unzipped [3] 1"
  "unzip_file sample_world (map_of sample_package) ''stitch.preos.bin'' = Unzipped [4] 1"
  "unzip_file sample_world (map_of sample_package) ''platform.img.gz'' = Unzipped [5] 1"
  by (simp_all add: unzip_file_def sample_package_def stored_def sample_world_def sample_env_def
      times_1_001_Suc_0)

lemma sample_load:
  "load_file sample_world ''pkg.zip'' = Some ([0x50, 0x4b], 2)"
  "init_zipfile sample_world [0x50, 0x4b] = Some (map_of sample_package)"
  using load_file_small [OF sample_files_raw(1)]
  by (simp_all add: sample_files_raw(6)) (simp add: sample_world_def sample_env_def)

text \<open>
  C3, as the code has it. For every archive that loads and opens and from which
  \<^verbatim>\<open>unzip_file\<close> extracts all five manifest entries (each is present, its buffer is
  allocated and it decompresses), \<^verbatim>\<open>do_flashall\<close> appends the two Display operations
  between the two Notice separators before any Flash, and then exactly five Flash
  operations in manifest order: dnx.bin to "dnx", ifwi.bin to "ifwi", stitch.normalos.bin
  to "boot", stitch.preos.bin to "preos", platform.img.gz to "platform".
\<close>

theorem flashall_plan:
  assumes "load_file env fn = Some (zdata, zsize)"
    and "init_zipfile env zdata = Some zp"
    and "unzip_file env zp ''dnx.bin'' = Unzipped d1 z1"
    and "unzip_file env zp ''ifwi.bin'' = Unzipped d2 z2"
    and "unzip_file env zp ''stitch.normalos.bin'' = Unzipped d3 z3"
    and "unzip_file env zp ''stitch.preos.bin'' = Unzipped d4 z4"
    and "unzip_file env zp ''platform.img.gz'' = Unzipped d5 z5"
  shows "do_flashall env fn s =
     Inr (s\<lparr>queue := queue s @
       [Notice separator,
        Display ''preos'' ''Current Pre-OS Version '',
        Display ''ifwi'' ''Current IFWI Version   '',
        Notice separator,
        Flash ''dnx'' d1 z1, Flash ''ifwi'' d2 z2, Flash ''boot'' d3 z3,
        Flash ''preos'' d4 z4, Flash ''platform'' d5 z5]\<rparr>)"
  using assms
  by (simp add: do_flashall_blocks blocks_def FW_DNX_BIN_def IFWI_BIN_def NORMALOS_BIN_def
      PREOS_BIN_def PLATFORM_IMG_def flash_entry_Unzipped queue_info_dump_eq info_dump_def)

theorem flashall_plan_witness:
  "do_flashall sample_world ''pkg.zip'' initial =
     Inr (initial\<lparr>queue :=
       [Notice separator,
        Display ''preos'' ''Current Pre-OS Version '',
        Display ''ifwi'' ''Current IFWI Version   '',
        Notice separator,
        Flash ''dnx'' [1] 1, Flash ''ifwi'' [2] 1, Flash ''boot'' [3] 1,
        Flash ''preos'' [4] 1, Flash ''platform'' [5] 1]\<rparr>)"
  using flashall_plan [OF sample_load sample_unzip, of initial]
  by (simp add: initial_def)

lemma corrupt_load:
  "load_file sample_world ''corrupt.zip'' = Some ([0x50, 0x4d], 2)"
  "init_zipfile sample_world [0x50, 0x4d] = Some (map_of corrupt_package)"
  using load_file_small [OF sample_files_raw(7)]
  by (simp_all add: sample_files_raw(6)) (simp add: sample_world_def sample_env_def)

lemma corrupt_unzip:
  "unzip_file sample_world (map_of corrupt_package) ''dnx.bin'' = Unzipped [1] 1"
  "unzip_file sample_world (map_of corrupt_package) ''ifwi.bin'' = Null"
  by (simp_all add: unzip_file_def corrupt_package_def corrupt_def stored_def
      sample_files_raw(6) times_1_001_Suc_0)

text \<open>
  An archive that contains all five manifest entries, with an \<^verbatim>\<open>ifwi.bin\<close> that does not
  decompress: \<^verbatim>\<open>do_flashall\<close> stops with "package missing ifwi.bin" after one Flash.
\<close>

theorem corrupt_entry_is_missing:
  "list_all (contains (map_of corrupt_package)) (map fst manifest) \<and>
   do_flashall sample_world ''corrupt.zip'' initial =
     Inl (Die ''package missing %s'' [''ifwi.bin''],
          initial\<lparr>queue := info_dump @ [Flash ''dnx'' [1] 1]\<rparr>)"
proof -
  have "list_all (contains (map_of corrupt_package)) (map fst manifest)"
    by (simp add: contains_def manifest_def corrupt_package_def)
  moreover have "do_flashall sample_world ''corrupt.zip'' initial =
     Inl (Die ''package missing %s'' [''ifwi.bin''],
          initial\<lparr>queue := info_dump @ [Flash ''dnx'' [1] 1]\<rparr>)"
    by (simp add: do_flashall_blocks corrupt_load blocks_def FW_DNX_BIN_def IFWI_BIN_def
        flash_entry_Unzipped [OF corrupt_unzip(1)] flash_entry_Null [OF corrupt_unzip(2)]
        queue_info_dump_eq initial_def)
  ultimately show ?thesis by simp
qed

lemma blocks_formats:
  "(name, fmt, ptn) \<in> set blocks \<Longrightarrow>
     fmt = ''package missing %s'' \<or> fmt = ''package missing %s'' @ newline"
  by (simp add: blocks_def) blast

lemma loop_flashall_stop:
  assumes "do_flashall env fn s = Inl e"
  shows "command_loop env s (''flashall'' # fn # rest) = Inl e"
  using assms by (simp add: body_flashall)

lemma main_stops_after:
  assumes "complete toks"
    and "command_loop env (initial\<lparr>serial := android_serial env\<rparr>) toks = Inr s1"
    and "command_loop env s1 (a # rest) = Inl (e, s2)"
    and "a \<in> set recognized"
  shows "main env (prog # toks @ a # rest) = Stopped e s2"
proof -
  have "hd (toks @ a # rest) \<in> set recognized"
  proof (cases toks)
    case Nil
    with assms(4) show ?thesis by simp
  next
    case (Cons t ts)
    with complete_hd [OF assms(1)] show ?thesis by simp
  qed
  then have "hd (toks @ a # rest) \<noteq> ''devices'' \<and> hd (toks @ a # rest) \<noteq> ''help''"
    by (rule recognized_not_first)
  then have "main env (prog # toks @ a # rest) =
     (case command_loop env (initial\<lparr>serial := android_serial env\<rparr>) (toks @ a # rest) of
        Inl (e, s) \<Rightarrow> Stopped e s
      | Inr s \<Rightarrow> Executed (resolve_reboot s))"
    by (intro main_loop) simp_all
  then show ?thesis
    by (simp only: command_loop_append [OF assms(1)] assms(2) assms(3) sum.case prod.case)
qed

text \<open>
  C4, as the code has it. For every archive that loads and opens: at the first manifest
  entry that \<^verbatim>\<open>unzip_file\<close> does not return (the archive has no such entry, or its buffer or
  its decompression fails; the entries before it are returned), \<^verbatim>\<open>do_flashall\<close> stops with
  \<^verbatim>\<open>die("package missing %s", name)\<close> naming that entry; the queue at the stop holds the
  status queries and the Flash operations of the earlier entries, which are not rolled
  back, and nothing for that entry or a later one; and wherever the \<^verbatim>\<open>flashall\<close> command
  stands, after complete commands that the loop got through, \<^verbatim>\<open>main\<close> stops there, so
  the queue is never executed.
\<close>

theorem flashall_missing_entry:
  assumes "load_file env fn = Some (zdata, zsize)"
    and "init_zipfile env zdata = Some zp"
    and "manifest = pre @ (name, ptn) # post"
    and "list_all (extracts env zp) (map fst pre)"
    and "unzip_file env zp name = Null"
    and "complete toks"
    and "command_loop env (initial\<lparr>serial := android_serial env\<rparr>) toks = Inr s1"
  shows "\<exists>fmt. (fmt = ''package missing %s'' \<or> fmt = ''package missing %s'' @ newline) \<and>
     do_flashall env fn s =
       Inl (Die fmt [name], s\<lparr>queue := queue s @ info_dump @ flashes env zp pre\<rparr>) \<and>
     main env (prog # toks @ ''flashall'' # fn # rest) =
       Stopped (Die fmt [name]) (s1\<lparr>queue := queue s1 @ info_dump @ flashes env zp pre\<rparr>)"
proof -
  let ?f = "\<lambda>(n, f, p). (n, p)"
  from assms(3) have "map ?f blocks = pre @ (name, ptn) # post"
    by (simp only: manifest_blocks)
  then obtain pre3 rest3 where b: "blocks = pre3 @ rest3" and pre: "pre = map ?f pre3"
    and "map ?f rest3 = (name, ptn) # post"
    by (auto simp add: map_eq_append_conv)
  then obtain e post3 where rest3: "rest3 = e # post3" and "?f e = (name, ptn)"
    by (auto simp add: map_eq_Cons_conv)
  then obtain fmt where e: "e = (name, fmt, ptn)" by (cases e) auto
  have blocks: "blocks = pre3 @ (name, fmt, ptn) # post3" using b rest3 e by simp
  have "(name, fmt, ptn) \<in> set blocks" unfolding blocks by simp
  then have fmt: "fmt = ''package missing %s'' \<or> fmt = ''package missing %s'' @ newline"
    by (rule blocks_formats)
  have "map fst pre = map fst pre3" by (simp add: pre case_prod_unfold comp_def)
  with assms(4) have ok: "list_all (extracts env zp) (map fst pre3)" by simp
  have stop: "do_flashall env fn t =
      Inl (Die fmt [name], t\<lparr>queue := queue t @ info_dump @ flashes env zp pre\<rparr>)" for t
    by (simp add: do_flashall_blocks assms(1,2) blocks flash_entries_stop [OF ok assms(5)]
        queue_info_dump_eq pre)
  have "flashall_tok \<in> set recognized" if "flashall_tok = ''flashall''" for flashall_tok
    using that by (simp add: recognized_def)
  then have r: "''flashall'' \<in> set recognized" by simp
  have "main env (prog # toks @ ''flashall'' # fn # rest) =
      Stopped (Die fmt [name]) (s1\<lparr>queue := queue s1 @ info_dump @ flashes env zp pre\<rparr>)"
    using assms(6,7) loop_flashall_stop [OF stop] r by (rule main_stops_after)
  with fmt stop show ?thesis by blast
qed

lemma bad_unzip:
  "unzip_file sample_world (map_of partial_package) ''dnx.bin'' = Unzipped [1] 1"
  "unzip_file sample_world (map_of partial_package) ''ifwi.bin'' = Null"
  by (simp_all add: unzip_file_def partial_package_def stored_def sample_world_def
      sample_env_def times_1_001_Suc_0)

lemma bad_load:
  "load_file sample_world ''bad.zip'' = Some ([0x50, 0x4c], 2)"
  "init_zipfile sample_world [0x50, 0x4c] = Some (map_of partial_package)"
  using load_file_small [OF sample_files_raw(2)]
  by (simp_all add: sample_files_raw(6)) (simp add: sample_world_def sample_env_def)

theorem flashall_missing_entry_witness:
  "main sample_world [''fastboot'', ''erase'', ''cache'', ''flashall'', ''bad.zip'', ''reboot''] =
     Stopped (Die ''package missing %s'' [''ifwi.bin''])
       (initial\<lparr>queue := Erase ''cache'' # info_dump @ [Flash ''dnx'' [1] 1]\<rparr>)"
proof -
  have m: "manifest = [(''dnx.bin'', ''dnx'')] @ (''ifwi.bin'', ''ifwi'') #
      [(''stitch.normalos.bin'', ''boot''), (''stitch.preos.bin'', ''preos''),
       (''platform.img.gz'', ''platform'')]"
    by (simp add: manifest_def)
  have ok: "list_all (extracts sample_world (map_of partial_package))
      (map fst [(''dnx.bin'', ''dnx'')])"
    by (simp add: extracts_def bad_unzip)
  have c: "complete [''erase'', ''cache'']"
    by (simp add: recognized_def arity_def)
  have r: "command_loop sample_world (initial\<lparr>serial := android_serial sample_world\<rparr>)
      [''erase'', ''cache''] = Inr (initial\<lparr>queue := [Erase ''cache'']\<rparr>)"
    by (simp add: body_erase fb_queue_erase_def enqueue_def sample_serial initial_def)
  from flashall_missing_entry [OF bad_load m ok bad_unzip(2) c r, of initial "''fastboot''"
      "[''reboot'']"]
  obtain fmt where
    "main sample_world
       [''fastboot'', ''erase'', ''cache'', ''flashall'', ''bad.zip'', ''reboot''] =
       Stopped (Die fmt [''ifwi.bin''])
         (initial\<lparr>queue := Erase ''cache'' # info_dump @
            flashes sample_world (map_of partial_package) [(''dnx.bin'', ''dnx'')]\<rparr>)"
    and "do_flashall sample_world ''bad.zip'' initial =
       Inl (Die fmt [''ifwi.bin''],
            initial\<lparr>queue := queue initial @ info_dump @
              flashes sample_world (map_of partial_package) [(''dnx.bin'', ''dnx'')]\<rparr>)"
    by (auto simp add: initial_def)
  moreover have "do_flashall sample_world ''bad.zip'' initial =
      Inl (Die ''package missing %s'' [''ifwi.bin''],
           initial\<lparr>queue := queue initial @ info_dump @ [Flash ''dnx'' [1] 1]\<rparr>)"
    by (simp add: do_flashall_blocks bad_load blocks_def FW_DNX_BIN_def IFWI_BIN_def
        flash_entry_Unzipped [OF bad_unzip(1)] flash_entry_Null [OF bad_unzip(2)]
        queue_info_dump_eq)
  ultimately show ?thesis
    by (simp add: flashes_Cons [OF bad_unzip(1)] flashes_Nil initial_def)
qed

lemma torn_load:
  "load_file sample_world ''torn.zip'' = Some ([0x50, 0x4e], 2)"
  "init_zipfile sample_world [0x50, 0x4e] = Some (map_of torn_package)"
  using load_file_small [OF sample_files_raw(8)]
  by (simp_all add: sample_files_raw(6)) (simp add: sample_world_def sample_env_def)

lemma torn_unzip:
  "unzip_file sample_world (map_of torn_package) ''dnx.bin'' = Null"
  by (simp add: unzip_file_def torn_package_def corrupt_def sample_files_raw(6)
      times_1_001_Suc_0)

text \<open>
  An archive that contains \<^verbatim>\<open>dnx.bin\<close>, which does not decompress, and is missing
  \<^verbatim>\<open>ifwi.bin\<close>: \<^verbatim>\<open>do_flashall\<close> stops with "package missing dnx.bin", naming the entry that
  is present and not the first missing one.
\<close>

theorem corrupt_entry_named_first:
  "contains (map_of torn_package) ''dnx.bin'' \<and>
   \<not> contains (map_of torn_package) ''ifwi.bin'' \<and>
   do_flashall sample_world ''torn.zip'' initial =
     Inl (Die ''package missing %s'' [''dnx.bin''], initial\<lparr>queue := info_dump\<rparr>)"
proof -
  have "do_flashall sample_world ''torn.zip'' initial =
     Inl (Die ''package missing %s'' [''dnx.bin''], initial\<lparr>queue := info_dump\<rparr>)"
    by (simp add: do_flashall_blocks torn_load blocks_def FW_DNX_BIN_def
        flash_entry_Null [OF torn_unzip] queue_info_dump_eq initial_def)
  then show ?thesis by (simp add: contains_def torn_package_def)
qed

subsection \<open>The deferred reboot\<close>

lemma sample_flashall:
  "do_flashall sample_world ''pkg.zip'' s =
     Inr (s\<lparr>queue := queue s @ info_dump @
       [Flash ''dnx'' [1] 1, Flash ''ifwi'' [2] 1, Flash ''boot'' [3] 1,
        Flash ''preos'' [4] 1, Flash ''platform'' [5] 1]\<rparr>)"
  by (simp add: do_flashall_blocks sample_load blocks_def FW_DNX_BIN_def IFWI_BIN_def
      NORMALOS_BIN_def PREOS_BIN_def PLATFORM_IMG_def
      flash_entry_Unzipped [OF sample_unzip(1)] flash_entry_Unzipped [OF sample_unzip(2)]
      flash_entry_Unzipped [OF sample_unzip(3)] flash_entry_Unzipped [OF sample_unzip(4)]
      flash_entry_Unzipped [OF sample_unzip(5)] queue_info_dump_eq)

lemma main_Executed:
  assumes "main env (prog # ts) = Executed s"
  obtains s0 where "command_loop env (initial\<lparr>serial := android_serial env\<rparr>) ts = Inr s0"
    and "s = resolve_reboot s0"
  using assms
  by (simp add: main_def split: if_splits sum.splits prod.splits)

lemma trailing_reboot_length: "length (trailing_reboot ts) \<le> 1"
  by (simp add: trailing_reboot_def)

text \<open>
  C5. When \<^verbatim>\<open>main\<close> gets past the command loop and hands the queue over, the queue is the
  operations of the commands followed by the trailing reboot operation of the token
  stream: Reboot if \<^verbatim>\<open>reboot\<close> or \<^verbatim>\<open>flashall\<close> stood as a command, else the Command
  "reboot-bootloader" if \<^verbatim>\<open>reboot-bootloader\<close> stood as a command, else nothing. That is at
  most one operation, and none of the operations before it is a Reboot or that Command, so
  it is never duplicated.
\<close>

theorem reboot_resolved_once:
  assumes "main env (prog # ts) = Executed s"
  shows "length (trailing_reboot ts) \<le> 1 \<and>
    (\<exists>ops. queue s = ops @ trailing_reboot ts \<and> (\<forall>a\<in>set ops. \<not> trailer_op a))"
proof -
  from assms obtain s0
    where run: "command_loop env (initial\<lparr>serial := android_serial env\<rparr>) ts = Inr s0"
      and s: "s = resolve_reboot s0"
    by (rule main_Executed)
  note f = loop_flags_queue [OF run]
  from f(1) have wr: "wants_reboot s0 =
      (''reboot'' \<in> set (command_tokens ts) \<or> ''flashall'' \<in> set (command_tokens ts))"
    by (simp add: initial_def)
  from f(2) have wb: "wants_reboot_bootloader s0 =
      (''reboot-bootloader'' \<in> set (command_tokens ts))"
    by (simp add: initial_def)
  from f(3) obtain ops where ops: "queue s0 = ops" "\<forall>a\<in>set ops. \<not> trailer_op a"
    by (auto simp add: initial_def)
  have "queue s = ops @ trailing_reboot ts"
    unfolding s resolve_reboot_queue trailing_reboot_def wr wb using ops(1) by simp
  with ops(2) trailing_reboot_length show ?thesis by blast
qed

theorem reboot_resolved_once_witness:
  "final_queue (main sample_world
      [''fastboot'', ''reboot'', ''flashall'', ''pkg.zip'', ''reboot-bootloader'', ''reboot'']) =
     Some (info_dump @
       [Flash ''dnx'' [1] 1, Flash ''ifwi'' [2] 1, Flash ''boot'' [3] 1,
        Flash ''preos'' [4] 1, Flash ''platform'' [5] 1, Reboot]) \<and>
   trailing_reboot [''reboot'', ''flashall'', ''pkg.zip'', ''reboot-bootloader'', ''reboot''] =
     [Reboot]"
proof -
  have m: "main sample_world
      [''fastboot'', ''reboot'', ''flashall'', ''pkg.zip'', ''reboot-bootloader'', ''reboot''] =
    Executed (initial\<lparr>wants_reboot := True, wants_reboot_bootloader := True,
      queue := info_dump @
       [Flash ''dnx'' [1] 1, Flash ''ifwi'' [2] 1, Flash ''boot'' [3] 1,
        Flash ''preos'' [4] 1, Flash ''platform'' [5] 1, Reboot]\<rparr>)"
    by (simp add: main_def body_reboot body_flashall body_reboot_bootloader sample_flashall
        sample_serial resolve_reboot_queue initial_def)
  from reboot_resolved_once [OF m] m show ?thesis
    by (simp add: trailing_reboot_def arity_def)
qed

subsection \<open>The queue as the concatenation of the effects\<close>












subsection \<open>The first argument\<close>

text \<open>
  C10, as the code has it. \<^verbatim>\<open>devices\<close> and \<^verbatim>\<open>help\<close> are recognized only as the first
  argument: \<^verbatim>\<open>main\<close> lists the devices (shows the help) exactly when the first argument is
  \<^verbatim>\<open>devices\<close> (\<^verbatim>\<open>help\<close>). Where one of them stands at the start of a command, after one or
  more complete recognized commands or options other than \<^verbatim>\<open>oem\<close> that the loop got through
  without stopping, the loop treats it as unrecognized: the run prints the usage text and
  exits with status 1, in the state reached before it.
\<close>

theorem devices_help_only_first:
  assumes "d = ''devices'' \<or> d = ''help''"
    and "pre \<noteq> []" and "complete pre"
    and "command_loop env (initial\<lparr>serial := android_serial env\<rparr>) pre = Inr s1"
  shows "main env (prog # pre @ d # post) = Stopped Usage s1 \<and>
    exit_status (main env (prog # pre @ d # post)) = Some 1 \<and>
    main env (prog # d # post) = (if d = ''devices'' then Devices_listed else Help_shown) \<and>
    (main env argv = Devices_listed \<longleftrightarrow> take 1 (drop 1 argv) = [''devices'']) \<and>
    (main env argv = Help_shown \<longleftrightarrow> take 1 (drop 1 argv) = [''help''])"
proof -
  from assms(1) have d: "d \<notin> set recognized" by (auto simp add: recognized_def)
  from complete_hd [OF assms(3,2)] have "hd pre \<noteq> ''devices'' \<and> hd pre \<noteq> ''help''"
    by (rule recognized_not_first)
  with assms(2) have "hd (pre @ d # post) \<noteq> ''devices''" "hd (pre @ d # post) \<noteq> ''help''"
    by simp_all
  then have "main env (prog # pre @ d # post) =
     (case command_loop env (initial\<lparr>serial := android_serial env\<rparr>) (pre @ d # post) of
        Inl (e, s) \<Rightarrow> Stopped e s
      | Inr s \<Rightarrow> Executed (resolve_reboot s))"
    by (intro main_loop) simp_all
  then have stop: "main env (prog # pre @ d # post) = Stopped Usage s1"
    by (simp add: command_loop_append [OF assms(3)] assms(4) body_unrecognized [OF d])
  have first: "main env (prog # d # post) = (if d = ''devices'' then Devices_listed else Help_shown)"
    using assms(1) by (auto simp add: main_def)
  have dev: "main env argv = Devices_listed \<longleftrightarrow> take 1 (drop 1 argv) = [''devices'']"
  proof (cases "drop 1 argv")
    case Nil
    then show ?thesis by (simp add: main_def)
  next
    case (Cons a rest)
    then show ?thesis
      by (simp add: main_def Let_def split: sum.splits prod.splits)
  qed
  have helped: "main env argv = Help_shown \<longleftrightarrow> take 1 (drop 1 argv) = [''help'']"
  proof (cases "drop 1 argv")
    case Nil
    then show ?thesis by (simp add: main_def)
  next
    case (Cons a rest)
    then show ?thesis
      by (simp add: main_def Let_def split: sum.splits prod.splits)
  qed
  from stop first dev helped show ?thesis by simp
qed

theorem devices_help_only_first_witness:
  "main sample_world [''fastboot'', ''-s'', ''A1'', ''erase'', ''cache'', ''devices'', ''reboot''] =
     Stopped Usage (initial\<lparr>serial := Some ''A1'', queue := [Erase ''cache'']\<rparr>) \<and>
   exit_status (main sample_world
     [''fastboot'', ''-s'', ''A1'', ''erase'', ''cache'', ''devices'', ''reboot'']) = Some 1 \<and>
   main sample_world [''fastboot'', ''devices'', ''reboot''] = Devices_listed"
proof -
  have c: "complete [''-s'', ''A1'', ''erase'', ''cache'']"
    by (simp add: recognized_def arity_def)
  have r: "command_loop sample_world (initial\<lparr>serial := android_serial sample_world\<rparr>)
      [''-s'', ''A1'', ''erase'', ''cache''] =
    Inr (initial\<lparr>serial := Some ''A1'', queue := [Erase ''cache'']\<rparr>)"
    by (simp add: body_serial body_erase fb_queue_erase_def enqueue_def initial_def)
  from devices_help_only_first [OF _ _ c r, of "''devices''" "''fastboot''" "[''reboot'']"]
  show ?thesis by simp
qed

text \<open>
  \<^verbatim>\<open>fastboot -s devices reboot\<close> and \<^verbatim>\<open>fastboot getvar help\<close>: the token is preceded by
  another token, which takes it as its argument. The run does not stop with the usage
  text; the queue is handed over.
\<close>

theorem devices_as_argument:
  "main sample_world [''fastboot'', ''-s'', ''devices'', ''reboot''] =
     Executed (initial\<lparr>serial := Some ''devices'', wants_reboot := True, queue := [Reboot]\<rparr>) \<and>
   main sample_world [''fastboot'', ''getvar'', ''help''] =
     Executed (initial\<lparr>queue := [Display ''help'' ''help'']\<rparr>)"
  by (simp add: main_def body_serial body_reboot body_getvar fb_queue_display_def enqueue_def
      resolve_reboot_queue sample_serial initial_def)

subsection \<open>The vendor id option\<close>

lemma high_bits_clear:
  fixes val :: "64 word"
  shows "val AND NOT 0xffff = 0 \<longleftrightarrow> uint val < 2 ^ 16"
proof -
  have m: "(0xffff :: 64 word) = mask 16" by (simp add: mask_eq_exp_minus_1)
  have "val AND NOT (mask 16) = 0 \<longleftrightarrow> val AND mask 16 = val"
  proof
    assume h: "val AND NOT (mask 16) = 0"
    have "val = val AND (mask 16 OR NOT (mask 16))" by simp
    also have "\<dots> = (val AND mask 16) OR (val AND NOT (mask 16))"
      by (rule bit.conj_disj_distrib)
    finally show "val AND mask 16 = val" using h by simp
  next
    assume h: "val AND mask 16 = val"
    have "val AND NOT (mask 16) = (val AND mask 16) AND NOT (mask 16)" by (simp only: h)
    also have "\<dots> = val AND (mask 16 AND NOT (mask 16))" by (simp only: and.assoc)
    also have "\<dots> = 0" by simp
    finally show "val AND NOT (mask 16) = 0" .
  qed
  also have "\<dots> \<longleftrightarrow> uint val < 2 ^ 16" by (rule mask_eq_iff)
  finally show ?thesis by (simp only: m)
qed

lemma uint_of_nat_small:
  assumes "n < 2 ^ 64"
  shows "uint (of_nat n :: 64 word) = int n"
proof -
  have "take_bit 64 n = n" using assms by (simp add: take_bit_nat_eq_self)
  then show ?thesis by (simp add: unsigned_of_nat)
qed

lemma of_nat_high_bits:
  assumes "n < 2 ^ 64"
  shows "(of_nat n :: 64 word) AND NOT 0xffff = 0 \<longleftrightarrow> n < 2 ^ 16"
proof -
  have "uint (of_nat n :: 64 word) < 2 ^ 16 \<longleftrightarrow> int n < 2 ^ 16"
    by (simp only: uint_of_nat_small [OF assms])
  also have "\<dots> \<longleftrightarrow> n < 2 ^ 16" by simp
  finally show ?thesis by (simp only: high_bits_clear)
qed

lemma ucast_of_nat_small:
  assumes "n < 2 ^ 64"
  shows "(ucast (of_nat n :: 64 word) :: 16 word) = of_nat n"
proof -
  have "take_bit 64 n = n" using assms by (simp add: take_bit_nat_eq_self)
  then show ?thesis by (simp add: unsigned_of_nat)
qed

lemma all_ones_high_bits: "(- 1 :: 64 word) AND NOT 0xffff \<noteq> 0"
  by simp

lemma foldl_positional:
  "foldl (\<lambda>a c. a * b + digit_value c) acc ds =
     acc * b ^ length ds + positional b (map digit_value ds)"
  by (induction ds arbitrary: acc) (simp_all add: algebra_simps)

lemma takeWhile_all:
  "length (takeWhile P xs) = length xs \<longleftrightarrow> list_all P xs"
  by (induction xs) (simp_all add: le_imp_less_Suc [THEN less_imp_neq] length_takeWhile_le)


lemma subject_length:
  assumes "subject a = (neg, base, s3)"
  shows "length s3 \<le> length a"
proof -
  have 1: "length (dropWhile isspace a) \<le> length a" by (rule length_dropWhile_le)
  have 2: "length (if c then tl s else s) \<le> length s" for c and s :: string by simp
  have 3: "length (if h then drop 2 s else s) \<le> length s" for h and s :: string by simp
  from assms obtain c h where
    "s3 = (if h then drop 2 (if c then tl (dropWhile isspace a) else dropWhile isspace a)
           else (if c then tl (dropWhile isspace a) else dropWhile isspace a))"
    unfolding subject_def Let_def prod.inject by blast
  then show ?thesis
    using 1 2 [of c "dropWhile isspace a"]
      3 [of h "if c then tl (dropWhile isspace a) else dropWhile isspace a"]
    by (simp only:)
qed

lemma subject_plain:
  assumes "a \<noteq> []" and "\<not> isspace (hd a)" and "hd a \<noteq> CHR ''+''" and "hd a \<noteq> CHR ''-''"
  shows "subject a =
    (False, if hex_prefix a then 16 else if hd a = CHR ''0'' then 8 else 10,
     if hex_prefix a then drop 2 a else a)"
proof -
  from assms(1) obtain x xs where a: "a = x # xs" by (cases a) simp_all
  from assms(2-4) show ?thesis unfolding a by (simp add: subject_def Let_def)
qed

lemma number_in_base_takeWhile_Nil:
  assumes "takeWhile (\<lambda>c. digit_value c < b) s3 = []"
  shows "number_in_base b s3 = None"
proof (cases s3)
  case Nil
  then show ?thesis by (simp add: number_in_base_def)
next
  case (Cons c cs)
  with assms have "\<not> digit_value c < b" by (simp split: if_splits)
  with Cons show ?thesis by (simp add: number_in_base_def)
qed

lemma vendor_id_digits:
  assumes sub: "subject a = (False, b, s3)" and ne: "a \<noteq> []"
  shows "vendor_id_arg a =
    (case number_in_base b s3 of
       None \<Rightarrow> None
     | Some n \<Rightarrow> if n < 2 ^ 16 then Some (of_nat n) else None)"
proof (cases "takeWhile (\<lambda>c. digit_value c < b) s3 = []")
  case True
  from ne have "0 < length a" by simp
  with True show ?thesis
    by (simp add: vendor_id_arg_def strtoul_def sub number_in_base_takeWhile_Nil)
next
  case False
  let ?P = "\<lambda>c. digit_value c < b"
  let ?ds = "takeWhile ?P s3"
  let ?n = "foldl (\<lambda>a c. a * b + digit_value c) 0 ?ds"
  let ?val = "if 2 ^ 64 \<le> ?n then - 1 else (of_nat ?n :: 64 word)"
  have st: "strtoul a = (?val, length a - length s3 + length ?ds)"
    using False by (simp add: strtoul_def sub Let_def)
  have l1: "length ?ds \<le> length s3" by (rule length_takeWhile_le)
  have l2: "length s3 \<le> length a" by (rule subject_length [OF sub])
  from False have s3: "s3 \<noteq> []" by auto
  show ?thesis
  proof (cases "list_all ?P s3")
    case all: True
    then have ds: "?ds = s3" by (simp add: list_all_iff)
    have n: "?n = positional b (map digit_value s3)"
      by (simp add: ds foldl_positional)
    have nb: "number_in_base b s3 = Some ?n"
      using all s3 by (simp only: number_in_base_def n simp_thms if_True)
    have e: "\<not> length a - length s3 + length ?ds < length a"
      using l2 by (simp only: ds)
    show ?thesis
    proof (cases "2 ^ 64 \<le> ?n")
      case True
      then have "\<not> ?n < 2 ^ 16" by simp
      with True show ?thesis
        unfolding vendor_id_arg_def st nb prod.case option.case
        using e all_ones_high_bits by (simp only: if_True if_False simp_thms)
    next
      case False
      then have lt: "?n < 2 ^ 64" by simp
      show ?thesis
        unfolding vendor_id_arg_def st nb prod.case option.case
        using e False of_nat_high_bits [OF lt] ucast_of_nat_small [OF lt]
        by (simp only: if_True if_False simp_thms) simp
    qed
  next
    case none: False
    then have "length ?ds \<noteq> length s3" by (simp add: takeWhile_all)
    with l1 l2 have e: "length a - length s3 + length ?ds < length a" by arith
    from none have nb: "number_in_base b s3 = None" by (simp add: number_in_base_def)
    show ?thesis
      unfolding vendor_id_arg_def st nb prod.case option.case using e by (simp only: if_True simp_thms)
  qed
qed

lemma digit_value_x: "digit_value CHR ''x'' = 33" "digit_value CHR ''X'' = 33"
  by (simp_all add: digit_value_def)

lemma c_number_subject:
  assumes "a \<noteq> []"
  shows "number_in_base (if hex_prefix a then 16 else if hd a = CHR ''0'' then 8 else 10)
      (if hex_prefix a then drop 2 a else a) = c_number a"
proof (cases "hex_prefix a")
  case True
  then obtain z x h t where a: "a = z # x # h # t"
    by (cases a; cases "tl a"; cases "tl (tl a)") (simp_all add: hex_prefix_def)
  from True show ?thesis unfolding a by (auto simp add: hex_prefix_def c_number_def)
next
  case False
  show ?thesis
  proof (cases "take 2 a = ''0x'' \<or> take 2 a = ''0X''")
    case True
    then obtain x t where a: "a = CHR ''0'' # x # t" and x: "x = CHR ''x'' \<or> x = CHR ''X''"
      by (cases a; cases "tl a") auto
    from x have dx: "digit_value x = 33" using digit_value_x by blast
    from False x have t: "t = [] \<or> \<not> digit_value (hd t) < 16"
      unfolding a by (cases t) (simp_all add: hex_prefix_def)
    then have r: "number_in_base 16 t = None"
      by (cases t) (auto simp add: number_in_base_def)
    have l: "number_in_base 8 a = None"
      unfolding a by (simp add: number_in_base_def dx)
    from False True have "c_number a = number_in_base 16 (drop 2 a)"
      by (simp only: c_number_def if_True)
    also have "\<dots> = None" using r unfolding a by simp
    finally have c: "c_number a = None" .
    have "hd a = CHR ''0''" unfolding a by simp
    with False l c show ?thesis by simp
  next
    case nothex: False
    from assms obtain x xs where a: "a = x # xs" by (cases a) simp_all
    have h: "take 1 a = ''0'' \<longleftrightarrow> hd a = CHR ''0''" unfolding a by simp
    from False nothex show ?thesis
      by (cases "hd a = CHR ''0''") (simp_all only: c_number_def h if_False if_True simp_thms)
  qed
qed

lemma vendor_id_plain:
  assumes "a \<noteq> []" and "\<not> isspace (hd a)" and "hd a \<noteq> CHR ''+''" and "hd a \<noteq> CHR ''-''"
  shows "vendor_id_arg a =
    (if parseable_u16 a then Some (of_nat (the (c_number a))) else None)"
proof -
  have "vendor_id_arg a =
    (case c_number a of None \<Rightarrow> None | Some n \<Rightarrow> if n < 2 ^ 16 then Some (of_nat n) else None)"
    by (simp only: vendor_id_digits [OF subject_plain [OF assms] assms(1)]
        c_number_subject [OF assms(1)])
  then show ?thesis by (cases "c_number a") (simp_all add: parseable_u16_def)
qed


lemma vendor_id_samples:
  "vendor_id_arg ''zzz'' = None"
  "vendor_id_arg ''0x18d1'' = Some 0x18d1"
  "vendor_id_arg ''65535'' = Some 0xffff"
  "vendor_id_arg ''65536'' = None"
  "vendor_id_arg ''12ab'' = None"
  by (simp_all add: vendor_id_arg_def strtoul_def subject_def hex_prefix_def isspace_def
      digit_value_def)

lemma c_number_samples:
  "c_number ''zzz'' = None"
  "c_number ''0x18d1'' = Some 0x18d1"
  "c_number [] = None"
  "c_number ''-18446744073709551615'' = None"
  by (simp_all add: c_number_def number_in_base_def digit_value_def)

text \<open>
  C7, as the code has it. For every argument string of \<^verbatim>\<open>-i\<close> that is not empty and does
  not start with white space or a sign, in any state and whatever follows: the loop stops
  with \<^verbatim>\<open>die("invalid vendor id '%s'", arg)\<close>, the state and its queue as they were before
  the option, if and only if the string is not parseable as an unsigned 16-bit value; when
  it is parseable, \<^verbatim>\<open>vendor_id\<close> is set to the number it denotes and the loop goes on. When
  the option is the first argument and its string is not parseable, \<^verbatim>\<open>main\<close> stops with the
  queue still empty, before device discovery.
\<close>

theorem vendor_id_option:
  assumes "a \<noteq> []" and "\<not> isspace (hd a)" and "hd a \<noteq> CHR ''+''" and "hd a \<noteq> CHR ''-''"
  shows "command_loop env s (''-i'' # a # rest) =
      (if \<not> parseable_u16 a
       then Inl (Die (''invalid vendor id '%s'' @ [CHR 0x27]) [a], s)
       else command_loop env (s\<lparr>vendor_id := of_nat (the (c_number a))\<rparr>) rest) \<and>
    (\<not> parseable_u16 a \<longrightarrow>
       main env (prog # ''-i'' # a # rest) =
         Stopped (Die (''invalid vendor id '%s'' @ [CHR 0x27]) [a])
           (initial\<lparr>serial := android_serial env\<rparr>))"
  by (simp add: main_def body_vendor vendor_id_plain [OF assms])

theorem vendor_id_option_witness:
  "main sample_world [''fastboot'', ''-i'', ''zzz'', ''reboot''] =
     Stopped (Die (''invalid vendor id '%s'' @ [CHR 0x27]) [''zzz'']) initial \<and>
   command_loop sample_world initial [''-i'', ''0x18d1'', ''reboot''] =
     Inr (initial\<lparr>vendor_id := 0x18d1, wants_reboot := True\<rparr>)"
proof -
  have z: "\<not> parseable_u16 ''zzz''" by (simp add: parseable_u16_def c_number_samples)
  have g: "parseable_u16 ''0x18d1''" by (simp add: parseable_u16_def c_number_samples)
  from vendor_id_option [of "''zzz''" sample_world initial "[''reboot'']" "''fastboot''"] z
  have 1: "main sample_world [''fastboot'', ''-i'', ''zzz'', ''reboot''] =
     Stopped (Die (''invalid vendor id '%s'' @ [CHR 0x27]) [''zzz'']) initial"
    by (simp add: isspace_def sample_serial initial_def)
  from vendor_id_option [of "''0x18d1''" sample_world initial "[''reboot'']" "''fastboot''"] g
  have 2: "command_loop sample_world initial [''-i'', ''0x18d1'', ''reboot''] =
     Inr (initial\<lparr>vendor_id := 0x18d1, wants_reboot := True\<rparr>)"
    by (simp add: isspace_def c_number_samples body_reboot initial_def)
  from 1 2 show ?thesis by (rule conjI)
qed

lemma vendor_id_empty: "vendor_id_arg [] = Some 0"
  by (simp add: vendor_id_arg_def strtoul_def subject_def hex_prefix_def)

lemma vendor_id_negative: "vendor_id_arg ''-18446744073709551615'' = Some 1"
  by (simp add: vendor_id_arg_def strtoul_def subject_def hex_prefix_def isspace_def
      digit_value_def)

text \<open>
  \<^verbatim>\<open>fastboot erase cache -i zzz\<close>: the run stops at the vendor id after the queue has got
  its Erase. The empty string, which is not parseable, passes the check of lines 355 to
  356 (\<^verbatim>\<open>strtoul\<close> converts nothing and leaves \<^verbatim>\<open>endptr\<close> at the terminating NUL): the run
  goes on with \<^verbatim>\<open>vendor_id\<close> 0. And \<^verbatim>\<open>-18446744073709551615\<close>, which is not parseable
  either, passes it too (\<^verbatim>\<open>strtoul\<close> negates in the unsigned type): the run goes on with
  \<^verbatim>\<open>vendor_id\<close> 1.
\<close>

theorem vendor_id_after_commands:
  "main sample_world [''fastboot'', ''erase'', ''cache'', ''-i'', ''zzz''] =
     Stopped (Die (''invalid vendor id '%s'' @ [CHR 0x27]) [''zzz''])
       (initial\<lparr>queue := [Erase ''cache'']\<rparr>) \<and>
   \<not> parseable_u16 [] \<and>
   main sample_world [''fastboot'', ''-i'', [], ''reboot''] =
     Executed (initial\<lparr>wants_reboot := True, queue := [Reboot]\<rparr>) \<and>
   \<not> parseable_u16 ''-18446744073709551615'' \<and>
   main sample_world [''fastboot'', ''-i'', ''-18446744073709551615'', ''reboot''] =
     Executed (initial\<lparr>vendor_id := 1, wants_reboot := True, queue := [Reboot]\<rparr>)"
  by (simp add: parseable_u16_def c_number_samples main_def body_erase body_vendor body_reboot
      vendor_id_samples(1) vendor_id_empty vendor_id_negative fb_queue_erase_def enqueue_def
      resolve_reboot_queue sample_serial initial_def)

end
